theory Spec2Isabelle
  imports Main "HOL-Library.Word"
begin

unbundle bit_operations_syntax

section \<open>Data model\<close>

text \<open>
  Bytes and the fixed-width integers of the Go sources. An \<open>int32\<close> or \<open>int64\<close> is kept
  as the word of its bits: \<open>+\<close> and \<open>-\<close> wrap as Go's do, and the signed comparisons
  \<open><s\<close> and \<open>\<le>s\<close> read it in two's complement.
\<close>

type_synonym byte = "8 word"
type_synonym bytes = "byte list"
type_synonym u32 = "32 word"
type_synonym i32 = "32 word"
type_synonym i64 = "64 word"

text \<open>The errors of the library. Go builds most of them with \<open>fmt.Errorf\<close>; each
  constructor stands for one error site of the sources. \<open>ErrLib\<close> is an error handed up
  from a call into an imported package, \<open>Panic\<close> a run-time panic (index out of range).\<close>

datatype lib_call =
    HexDecodeString | NewHashFromStr | ZecDecodeAddress | ZecPayToAddrScript
  | NewTxSigHashes | Blake2b | ScriptBuilderScript | RawTxInSignature | ZecEncodeCall
  | GetUTXOsCall | PublishTransactionCall

datatype error =
    ErrPreConditionCheckFailed
  | ErrPostConditionCheckFailed
  | ErrMismatchedPubKeys
  | ErrInsufficientBalance string i64 i64
  | ErrUnsupportedNetwork string
  | ErrDustOutput nat i64
  | ErrMinimumTransfer i64 i64
  | ErrInsufficientTransfer i64 i64
  | ErrBadIndex int nat
  | ErrLib lib_call
  | Panic

text \<open>\<open>wire.OutPoint\<close>, \<open>wire.TxIn\<close>, \<open>wire.TxOut\<close> and \<open>zecutil.MsgTx\<close> (a
  \<open>wire.MsgTx\<close> with the expiry height).\<close>

record OutPoint =
  Hash :: bytes
  Index :: u32

record TxIn =
  PreviousOutPoint :: OutPoint
  SignatureScript :: bytes
  Sequence :: u32

record TxOut =
  Value :: i64
  PkScript :: bytes

record MsgTx =
  Version :: i32
  TxIns :: "TxIn list"
  TxOuts :: "TxOut list"
  LockTime :: u32
  ExpiryHeight :: u32

text \<open>\<open>txscript.TxSigHashes\<close>: the three cached digests of a transaction.\<close>

record TxSigHashes =
  HashPrevOuts :: bytes
  HashSequence :: bytes
  HashOutputs :: bytes

text \<open>The imported packages the signature hash calls into: \<open>zecutil.NewTxSigHashes\<close>
  (\<open>None\<close> when it returns an error) and the BLAKE2b digest of \<open>codahale/blake2\<close> with
  32 bytes of output, as a function of the personalization and the data.\<close>

record hash_libs =
  zecNewTxSigHashes :: "MsgTx \<Rightarrow> TxSigHashes option"
  blake2Sum :: "bytes \<Rightarrow> bytes \<Rightarrow> bytes"

section \<open>Little-endian and wire encodings\<close>

definition le16 :: "16 word \<Rightarrow> bytes" where
  "le16 w = map (\<lambda>k. ucast (drop_bit (8 * k) w)) [0, 1]"

definition le32 :: "u32 \<Rightarrow> bytes" where
  "le32 w = map (\<lambda>k. ucast (drop_bit (8 * k) w)) [0, 1, 2, 3]"

definition le64 :: "i64 \<Rightarrow> bytes" where
  "le64 w = map (\<lambda>k. ucast (drop_bit (8 * k) w)) [0, 1, 2, 3, 4, 5, 6, 7]"

text \<open>\<open>wire.WriteVarInt\<close>, \<open>wire.WriteVarBytes\<close> and \<open>wire.WriteTxOut\<close> into a
  \<open>bytes.Buffer\<close>, whose writes never fail.\<close>

definition WriteVarInt :: "nat \<Rightarrow> bytes" where
  "WriteVarInt n =
     (if n < 0xfd then [of_nat n]
      else if n \<le> 0xffff then 0xfd # le16 (of_nat n)
      else if n \<le> 0xffffffff then 0xfe # le32 (of_nat n)
      else 0xff # le64 (of_nat n))"

definition WriteVarBytes :: "bytes \<Rightarrow> bytes" where
  "WriteVarBytes b = WriteVarInt (length b) @ b"

definition WriteTxOut :: "TxOut \<Rightarrow> bytes" where
  "WriteTxOut t = le64 (Value t) @ WriteVarBytes (PkScript t)"

section \<open>The signature hash (ZIP-243)\<close>

record upgradeParam =
  ActivationHeight :: u32
  BranchID :: bytes

definition sigHashMask :: u32 where "sigHashMask = 0x1f"
definition SigHashAll :: u32 where "SigHashAll = 0x1"
definition SigHashNone :: u32 where "SigHashNone = 0x2"
definition SigHashSingle :: u32 where "SigHashSingle = 0x3"
definition SigHashAnyOneCanPay :: u32 where "SigHashAnyOneCanPay = 0x80"

definition blake2BSigHash :: bytes where
  "blake2BSigHash = map (of_nat \<circ> of_char) ''ZcashSigHash''"

definition outputsHashPersonalization :: bytes where
  "outputsHashPersonalization = map (of_nat \<circ> of_char) ''ZcashOutputsHash''"

definition versionOverwinter :: i32 where "versionOverwinter = 3"
definition versionSapling :: i32 where "versionSapling = 4"

definition versionOverwinterGroupID :: u32 where "versionOverwinterGroupID = 0x3C48270"
definition versionSaplingGroupID :: u32 where "versionSaplingGroupID = 0x892f2085"

definition upgradeParams :: "upgradeParam list" where
  "upgradeParams =
     [\<lparr>ActivationHeight = 0, BranchID = [0x00, 0x00, 0x00, 0x00]\<rparr>,
      \<lparr>ActivationHeight = 207500, BranchID = [0x19, 0x1B, 0xA8, 0x5B]\<rparr>,
      \<lparr>ActivationHeight = 280000, BranchID = [0xBB, 0x09, 0xB8, 0x76]\<rparr>]"

definition zeroHash :: bytes where
  "zeroHash = replicate 32 0"

text \<open>\<open>blake2bHash\<close>: the write into the digest never fails; \<open>SetBytes\<close> refuses a
  digest that is not 32 bytes long.\<close>

definition blake2bHash :: "hash_libs \<Rightarrow> bytes \<Rightarrow> bytes \<Rightarrow> error + bytes" where
  "blake2bHash L data key =
     (let s = blake2Sum L key data
      in if length s \<noteq> 32 then Inl (ErrLib Blake2b) else Inr s)"

text \<open>The loop of \<open>sigHashKey\<close>: the index runs down from the last entry and stops at
  the first entry whose activation height is at most the given height. The argument
  \<open>n\<close> is the loop index plus one; the result is the index after the loop, \<open>-1\<close> when
  no entry stopped it.\<close>

fun sigHashKey_loop :: "upgradeParam list \<Rightarrow> nat \<Rightarrow> u32 \<Rightarrow> int" where
  "sigHashKey_loop ps 0 h = - 1"
| "sigHashKey_loop ps (Suc i) h =
     (if h \<ge> ActivationHeight (ps ! i) then int i else sigHashKey_loop ps i h)"

definition sigHashKey :: "u32 \<Rightarrow> error + bytes" where
  "sigHashKey activationHeight =
     (let i = sigHashKey_loop upgradeParams (length upgradeParams) activationHeight
      in if i < 0 then Inl Panic
         else Inr (blake2BSigHash @ BranchID (upgradeParams ! nat i)))"

text \<open>The preimage that \<open>CalcSignatureHash\<close> collects in its buffer, up to the final
  digest. The index is a Go \<open>int\<close>: a negative one passes the sanity check and panics
  at the first indexing.\<close>

definition hashOutputsPart :: "hash_libs \<Rightarrow> TxSigHashes \<Rightarrow> u32 \<Rightarrow> MsgTx \<Rightarrow> int \<Rightarrow> error + bytes" where
  "hashOutputsPart L sigHashes hashType tx idx =
     (if hashType AND sigHashMask \<noteq> SigHashSingle \<and> hashType AND sigHashMask \<noteq> SigHashNone
      then Inr (HashOutputs sigHashes)
      else if hashType AND sigHashMask = SigHashSingle \<and> idx < int (length (TxOuts tx))
      then (if idx < 0 then Inl Panic
            else blake2bHash L (WriteTxOut (TxOuts tx ! nat idx)) outputsHashPersonalization)
      else Inr zeroHash)"

definition inputPart :: "bytes \<Rightarrow> MsgTx \<Rightarrow> int \<Rightarrow> i64 \<Rightarrow> error + bytes" where
  "inputPart subScript tx idx amt =
     (if idx \<noteq> 4294967295
      then (if idx < 0 \<or> idx \<ge> int (length (TxIns tx)) then Inl Panic
            else let txin = TxIns tx ! nat idx
                 in Inr (Hash (PreviousOutPoint txin) @ le32 (Index (PreviousOutPoint txin))
                         @ WriteVarBytes subScript @ le64 amt @ le32 (Sequence txin)))
      else Inr [])"

definition sigHashPreimage ::
  "hash_libs \<Rightarrow> bytes \<Rightarrow> u32 \<Rightarrow> MsgTx \<Rightarrow> int \<Rightarrow> i64 \<Rightarrow> error + bytes" where
  "sigHashPreimage L subScript hashType tx idx amt =
     (case zecNewTxSigHashes L tx of
        None \<Rightarrow> Inl (ErrLib NewTxSigHashes)
      | Some sigHashes \<Rightarrow>
          (if idx > int (length (TxIns tx)) - 1
           then Inl (ErrBadIndex idx (length (TxIns tx)))
           else
            let bVersion = le32 (Version tx OR push_bit 31 1);
                versionGroupID =
                  (if Version tx = versionSapling then versionSaplingGroupID
                   else versionOverwinterGroupID);
                nVersion = le32 versionGroupID;
                hashPrevouts =
                  (if hashType AND SigHashAnyOneCanPay = 0 then HashPrevOuts sigHashes
                   else zeroHash);
                hashSequence =
                  (if hashType AND SigHashAnyOneCanPay = 0
                      \<and> hashType AND sigHashMask \<noteq> SigHashSingle
                      \<and> hashType AND sigHashMask \<noteq> SigHashNone
                   then HashSequence sigHashes else zeroHash)
            in (case hashOutputsPart L sigHashes hashType tx idx of
                  Inl e \<Rightarrow> Inl e
                | Inr hashOutputs \<Rightarrow>
                    (let sapling =
                           (if Version tx = versionSapling then zeroHash @ zeroHash else []);
                         valueBalance =
                           (if Version tx = versionSapling then le64 0 else [])
                     in (case inputPart subScript tx idx amt of
                           Inl e \<Rightarrow> Inl e
                         | Inr perInput \<Rightarrow>
                             Inr (bVersion @ nVersion @ hashPrevouts @ hashSequence
                                  @ hashOutputs @ zeroHash @ sapling
                                  @ le32 (LockTime tx) @ le32 (ExpiryHeight tx)
                                  @ valueBalance @ le32 hashType @ perInput))))))"

definition CalcSignatureHash ::
  "hash_libs \<Rightarrow> bytes \<Rightarrow> u32 \<Rightarrow> MsgTx \<Rightarrow> int \<Rightarrow> i64 \<Rightarrow> error + bytes" where
  "CalcSignatureHash L subScript hashType tx idx amt =
     (case sigHashPreimage L subScript hashType tx idx amt of
        Inl e \<Rightarrow> Inl e
      | Inr sigHash \<Rightarrow>
          (case sigHashKey (ExpiryHeight tx) of
             Inl e \<Rightarrow> Inl e
           | Inr key \<Rightarrow> blake2bHash L sigHash key))"

section \<open>Imported packages and the client\<close>

text \<open>\<open>chaincfg.Params\<close>: the sources read the \<open>Name\<close> of the parameters and compare
  the pointer with \<open>&chaincfg.MainNetParams\<close> and \<open>&chaincfg.TestNet3Params\<close>, so the
  parameters are a datatype of the known values; \<open>CustomParams\<close> is any other value,
  whatever its name.\<close>

datatype Params =
  MainNetParams | TestNet3Params | RegressionNetParams | SimNetParams | CustomParams string

fun Name :: "Params \<Rightarrow> string" where
  "Name MainNetParams = ''mainnet''"
| "Name TestNet3Params = ''testnet3''"
| "Name RegressionNetParams = ''regtest''"
| "Name SimNetParams = ''simnet''"
| "Name (CustomParams n) = n"

text \<open>A \<open>btcutil.Address\<close> as \<open>zecutil\<close> returns it, the keys and signatures of
  \<open>btcec\<close>, and an item pushed into a \<open>txscript.ScriptBuilder\<close>.\<close>

record Address =
  isScriptHash :: bool
  hash160 :: bytes
  netName :: string

datatype PublicKey = PublicKey int int
datatype PrivateKey = PrivateKey int
datatype Signature = Signature int int

datatype script_item = AddData bytes | AddOp byte

text \<open>The functions of the imported packages (\<open>btcutil\<close>, \<open>btcec\<close>, \<open>txscript\<close>,
  \<open>chainhash\<close>, \<open>zecutil\<close>, \<open>base58\<close>, the Go library) that the sources call, as
  parameters of the model. A call that can return an error has an \<open>option\<close> result.
  \<open>sha256Sum256\<close> returns the 32 bytes of the array as a list.
  \<open>scriptBuilderScript\<close> is \<open>Script()\<close> of a builder that received the items in
  order.\<close>

record libs =
  hashLibs :: hash_libs
  btcutilHash160 :: "bytes \<Rightarrow> bytes"
  sha256Sum256 :: "bytes \<Rightarrow> bytes"
  base58Encode :: "bytes \<Rightarrow> string"
  zecDecodeAddress :: "string \<Rightarrow> string \<Rightarrow> Address option"
  zecPayToAddrScript :: "Address \<Rightarrow> bytes option"
  EncodeAddress :: "Address \<Rightarrow> string"
  hexDecodeString :: "string \<Rightarrow> bytes option"
  chainhashNewHashFromStr :: "string \<Rightarrow> bytes option"
  SerializeCompressed :: "PublicKey \<Rightarrow> bytes"
  SerializeUncompressed :: "PublicKey \<Rightarrow> bytes"
  sigSerialize :: "Signature \<Rightarrow> bytes"
  scriptBuilderScript :: "script_item list \<Rightarrow> bytes option"
  PubKey :: "PrivateKey \<Rightarrow> PublicKey"
  zecRawTxInSignature :: "MsgTx \<Rightarrow> int \<Rightarrow> bytes \<Rightarrow> u32 \<Rightarrow> PrivateKey \<Rightarrow> i64 \<Rightarrow> bytes option"
  ZecEncode :: "MsgTx \<Rightarrow> bytes option"
  TxHashString :: "MsgTx \<Rightarrow> string"

section \<open>The address codec\<close>

text \<open>The table of \<open>AddressFromHash160\<close>, a Go map of maps: a missing key reads as the
  nil slice.\<close>

definition prefixes :: "(string \<times> (string \<times> bytes) list) list" where
  "prefixes =
     [(''mainnet'', [(''pubkey'', [0x1C, 0xB8]), (''script'', [0x1C, 0xBD])]),
      (''testnet3'', [(''pubkey'', [0x1D, 0x25]), (''script'', [0x1C, 0xBA])]),
      (''regtest'', [(''pubkey'', [0x1D, 0x25]), (''script'', [0x1C, 0xBA])])]"

definition prefix_of :: "string \<Rightarrow> string \<Rightarrow> bytes" where
  "prefix_of net kind =
     (case map_of prefixes net of
        None \<Rightarrow> []
      | Some m \<Rightarrow> (case map_of m kind of None \<Rightarrow> [] | Some p \<Rightarrow> p))"

definition addrChecksum :: "libs \<Rightarrow> bytes \<Rightarrow> bytes" where
  "addrChecksum L input =
     (let h = sha256Sum256 L input; h2 = sha256Sum256 L h in take 4 h2)"

definition encodeHash :: "libs \<Rightarrow> bytes \<Rightarrow> bytes \<Rightarrow> string" where
  "encodeHash L addrHash prefix =
     (let body = prefix @ addrHash;
          chk = addrChecksum L body;
          cksum = take 4 chk
      in base58Encode L (body @ cksum))"

definition DecodeAddress :: "libs \<Rightarrow> string \<Rightarrow> Params \<Rightarrow> error + Address" where
  "DecodeAddress L address params =
     (case zecDecodeAddress L address (Name params) of
        None \<Rightarrow> Inl (ErrLib ZecDecodeAddress)
      | Some a \<Rightarrow> Inr a)"

definition PayToAddrScript :: "libs \<Rightarrow> Address \<Rightarrow> error + bytes" where
  "PayToAddrScript L address =
     (case zecPayToAddrScript L address of
        None \<Rightarrow> Inl (ErrLib ZecPayToAddrScript)
      | Some s \<Rightarrow> Inr s)"

definition AddressFromHash160 :: "libs \<Rightarrow> bytes \<Rightarrow> Params \<Rightarrow> bool \<Rightarrow> error + Address" where
  "AddressFromHash160 L hash params isScript =
     (if isScript
      then DecodeAddress L (encodeHash L hash (prefix_of (Name params) ''script'')) params
      else DecodeAddress L (encodeHash L hash (prefix_of (Name params) ''pubkey'')) params)"

section \<open>The client\<close>

text \<open>\<open>clients.UTXO\<close>, and the part of the \<open>Client\<close> interface the transaction code
  reads: the network parameters and the list of unspent outputs of an address
  (\<open>None\<close> when the indexer call returns an error). The indexer is a remote service
  whose answer may change from one request to the next: the first argument of
  \<open>GetUTXOs\<close> is the number of the request, counted from 0 within a call of \<open>fund\<close>
  or \<open>fundAll\<close>.\<close>

record UTXO =
  TxHash :: string
  Amount :: i64
  ScriptPubKey :: string
  Vout :: u32

record Client =
  NetworkParams :: Params
  GetUTXOs :: "nat \<Rightarrow> string \<Rightarrow> int \<Rightarrow> int \<Rightarrow> UTXO list option"

text \<open>Sequencing of calls that return a value or an error.\<close>

definition andThen :: "error + 'a \<Rightarrow> ('a \<Rightarrow> error + 'b) \<Rightarrow> error + 'b" where
  "andThen r f = (case r of Inl e \<Rightarrow> Inl e | Inr x \<Rightarrow> f x)"

text \<open>\<open>copy(hash20[:], b)\<close> into a zeroed \<open>[20]byte\<close>.\<close>

definition copy20 :: "bytes \<Rightarrow> bytes" where
  "copy20 b = take 20 (b @ replicate 20 0)"

definition SerializePublicKey :: "libs \<Rightarrow> Client \<Rightarrow> PublicKey \<Rightarrow> error + bytes" where
  "SerializePublicKey L c pubKey =
     (case NetworkParams c of
        MainNetParams \<Rightarrow> Inr (SerializeCompressed L pubKey)
      | TestNet3Params \<Rightarrow> Inr (SerializeUncompressed L pubKey)
      | net \<Rightarrow> Inl (ErrUnsupportedNetwork (Name net)))"

definition PublicKeyToAddress :: "libs \<Rightarrow> Client \<Rightarrow> bytes \<Rightarrow> error + Address" where
  "PublicKeyToAddress L c pubKeyBytes =
     AddressFromHash160 L (copy20 (btcutilHash160 L pubKeyBytes)) (NetworkParams c) False"

definition Balance :: "Client \<Rightarrow> nat \<Rightarrow> string \<Rightarrow> int \<Rightarrow> error + i64" where
  "Balance c k address confirmations =
     (case GetUTXOs c k address 999999 confirmations of
        None \<Rightarrow> Inl (ErrLib GetUTXOsCall)
      | Some utxos \<Rightarrow> Inr (foldl (\<lambda>balance utxo. balance + Amount utxo) 0 utxos))"

section \<open>Transactions of the wire package\<close>

definition ZCashExpiryHeight :: u32 where "ZCashExpiryHeight = 6000000"

text \<open>\<open>wire.NewMsgTx\<close> wrapped into a \<open>zecutil.MsgTx\<close> with the default expiry height,
  \<open>wire.NewOutPoint\<close>, \<open>wire.NewTxIn\<close> (the sequence number is the maximum),
  \<open>wire.NewTxOut\<close>, \<open>AddTxIn\<close> and \<open>AddTxOut\<close>.\<close>

definition NewMsgTx :: "i32 \<Rightarrow> MsgTx" where
  "NewMsgTx v =
     \<lparr>Version = v, TxIns = [], TxOuts = [], LockTime = 0, ExpiryHeight = ZCashExpiryHeight\<rparr>"

definition NewOutPoint :: "bytes \<Rightarrow> u32 \<Rightarrow> OutPoint" where
  "NewOutPoint h i = \<lparr>Hash = h, Index = i\<rparr>"

definition NewTxIn :: "OutPoint \<Rightarrow> bytes \<Rightarrow> TxIn" where
  "NewTxIn prevOut sigScript =
     \<lparr>PreviousOutPoint = prevOut, SignatureScript = sigScript, Sequence = 0xffffffff\<rparr>"

definition NewTxOut :: "i64 \<Rightarrow> bytes \<Rightarrow> TxOut" where
  "NewTxOut v pkScript = \<lparr>Value = v, PkScript = pkScript\<rparr>"

definition AddTxIn :: "MsgTx \<Rightarrow> TxIn \<Rightarrow> MsgTx" where
  "AddTxIn m ti = m\<lparr>TxIns := TxIns m @ [ti]\<rparr>"

definition AddTxOut :: "MsgTx \<Rightarrow> TxOut \<Rightarrow> MsgTx" where
  "AddTxOut m t = m\<lparr>TxOuts := TxOuts m @ [t]\<rparr>"

section \<open>The transaction builder with caller-supplied UTXOs\<close>

record txBuilder =
  version :: i32
  fee :: i64
  dust :: i64
  b_client :: Client

definition NewTxBuilder :: "Client \<Rightarrow> txBuilder" where
  "NewTxBuilder c = \<lparr>version = 4, fee = 10000, dust = 600, b_client = c\<rparr>"

text \<open>The struct \<open>transaction\<close>; \<open>t_contract\<close> is \<open>None\<close> for the nil slice.\<close>

record transaction =
  t_sent :: i64
  t_msgTx :: MsgTx
  t_hashes :: "bytes list"
  t_client :: Client
  t_contract :: "bytes option"
  t_publicKey :: PublicKey
  t_mwIns :: nat

definition sum_i64 :: "i64 list \<Rightarrow> i64" where
  "sum_i64 vals = foldl (\<lambda>res val. res + val) 0 vals"

text \<open>The loop of \<open>fundZecTx\<close> over the UTXOs from index \<open>i\<close> on. The state is the
  canonical \<open>scriptPubKey\<close>, the transaction and the slice \<open>receiveValues\<close>. A UTXO
  whose script differs from a non-empty canonical script is skipped: no input is added
  and its slot of \<open>receiveValues\<close> stays zero.\<close>

fun fundZecTx_loop ::
  "libs \<Rightarrow> UTXO list \<Rightarrow> nat \<Rightarrow> bytes \<times> MsgTx \<times> i64 list \<Rightarrow> error + (bytes \<times> MsgTx \<times> i64 list)" where
  "fundZecTx_loop L [] i st = Inr st"
| "fundZecTx_loop L (utxo # utxos) i (scriptPubKey, m, receiveValues) =
     (case hexDecodeString L (ScriptPubKey utxo) of
        None \<Rightarrow> Inl (ErrLib HexDecodeString)
      | Some spk \<Rightarrow>
          if length scriptPubKey \<noteq> 0 \<and> scriptPubKey \<noteq> spk
          then fundZecTx_loop L utxos (Suc i) (scriptPubKey, m, receiveValues)
          else
            (case chainhashNewHashFromStr L (TxHash utxo) of
               None \<Rightarrow> Inl (ErrLib NewHashFromStr)
             | Some h \<Rightarrow>
                 fundZecTx_loop L utxos (Suc i)
                   (if length scriptPubKey = 0 then spk else scriptPubKey,
                    AddTxIn m (NewTxIn (NewOutPoint h (Vout utxo)) []),
                    receiveValues[i := Amount utxo])))"

definition fundZecTx ::
  "libs \<Rightarrow> Address \<Rightarrow> bytes option \<Rightarrow> Client \<Rightarrow> MsgTx \<Rightarrow> UTXO list
     \<Rightarrow> error + (i64 list \<times> bytes \<times> MsgTx)" where
  "fundZecTx L fromAddr script c m utxos =
     andThen
       (case script of
          None \<Rightarrow> Inr fromAddr
        | Some s \<Rightarrow> AddressFromHash160 L (copy20 (btcutilHash160 L s)) (NetworkParams c) True)
       (\<lambda>fromAddr'.
          andThen (fundZecTx_loop L utxos 0 ([], m, replicate (length utxos) 0))
            (\<lambda>(scriptPubKey, m', receiveValues).
               case script of
                 Some s \<Rightarrow> Inr (receiveValues, s, m')
               | None \<Rightarrow> Inr (receiveValues, scriptPubKey, m')))"

text \<open>The two loops of \<open>Build\<close> that compute the digests for the given indices;
  \<open>recvVals[i]\<close> panics when the index is out of range.\<close>

fun calcHashes ::
  "libs \<Rightarrow> bytes \<Rightarrow> MsgTx \<Rightarrow> i64 list \<Rightarrow> nat list \<Rightarrow> bytes list \<Rightarrow> error + bytes list" where
  "calcHashes L subScript m recvVals [] hs = Inr hs"
| "calcHashes L subScript m recvVals (i # idxs) hs =
     (if i \<ge> length recvVals then Inl Panic
      else
        (case CalcSignatureHash (hashLibs L) subScript SigHashAll m (int i) (recvVals ! i) of
           Inl e \<Rightarrow> Inl e
         | Inr h \<Rightarrow> calcHashes L subScript m recvVals idxs (hs @ [h])))"

text \<open>\<open>Build\<close> in three blocks. The first funds the transaction from the two
  UTXO lists and checks the total against the value plus the fee; it yields
  \<open>recvVals\<close>, \<open>pubKeyScript\<close>, \<open>amt\<close>, \<open>sent\<close> and the transaction.\<close>

definition Build_fund ::
  "libs \<Rightarrow> txBuilder \<Rightarrow> Address \<Rightarrow> bytes option \<Rightarrow> i64 \<Rightarrow> UTXO list \<Rightarrow> UTXO list
     \<Rightarrow> error + (i64 list \<times> bytes \<times> i64 \<times> i64 \<times> MsgTx)" where
  "Build_fund L builder fromAddr contract v mwUTXOs scriptUTXOs =
     andThen (fundZecTx L fromAddr None (b_client builder) (NewMsgTx (version builder)) mwUTXOs)
       (\<lambda>(recvVals1, pubKeyScript, m1).
     andThen
       (case contract of
          None \<Rightarrow> Inr (recvVals1, sum_i64 recvVals1, 0, m1)
        | Some c \<Rightarrow>
            andThen (fundZecTx L fromAddr (Some c) (b_client builder) m1 scriptUTXOs)
              (\<lambda>(recvVals2, pubKeyScript2, m2).
                 Inr (recvVals1 @ recvVals2, sum_i64 recvVals1 + sum_i64 recvVals2,
                      sum_i64 recvVals2 - fee builder, m2)))
       (\<lambda>(recvVals, amt, sent1, m2).
          if amt <s v + fee builder
          then Inl (ErrInsufficientTransfer amt (v + fee builder))
          else Inr (recvVals, pubKeyScript, amt, sent1, m2)))"

text \<open>The second block adds the output to the destination and the change output.\<close>

definition Build_outputs ::
  "libs \<Rightarrow> txBuilder \<Rightarrow> Address \<Rightarrow> Address \<Rightarrow> i64 \<Rightarrow> i64 \<Rightarrow> i64 \<Rightarrow> MsgTx
     \<Rightarrow> error + (i64 \<times> MsgTx)" where
  "Build_outputs L builder toAddr fromAddr v amt sent1 m2 =
     andThen
       (if 0 <s v
        then andThen (PayToAddrScript L toAddr)
               (\<lambda>script. Inr (v, AddTxOut m2 (NewTxOut v script)))
        else Inr (sent1, m2))
       (\<lambda>(sent2, m3).
          if fee builder + dust builder <s amt - v
          then andThen (PayToAddrScript L fromAddr)
                 (\<lambda>P2PKHScript.
                    Inr (sent2, AddTxOut m3 (NewTxOut (amt - v - fee builder) P2PKHScript)))
          else Inr (sent2, m3))"

text \<open>The third block computes the digests: the inputs of the master wallet with
  \<open>pubKeyScript\<close>, the inputs of the contract with the contract.\<close>

definition Build_hashes ::
  "libs \<Rightarrow> bytes \<Rightarrow> bytes option \<Rightarrow> MsgTx \<Rightarrow> i64 list \<Rightarrow> nat \<Rightarrow> nat \<Rightarrow> error + bytes list" where
  "Build_hashes L pubKeyScript contract m recvVals nmw nscript =
     andThen (calcHashes L pubKeyScript m recvVals [0 ..< nmw] [])
       (\<lambda>hashes1.
          calcHashes L (case contract of None \<Rightarrow> [] | Some c \<Rightarrow> c) m recvVals
            [nmw ..< nmw + nscript] hashes1)"

text \<open>\<open>Build\<close>, returning with the transaction the slice \<open>recvVals\<close> of the amounts
  that the digests were computed with.\<close>

definition Build_run ::
  "libs \<Rightarrow> txBuilder \<Rightarrow> PublicKey \<Rightarrow> string \<Rightarrow> bytes option \<Rightarrow> i64 \<Rightarrow> UTXO list \<Rightarrow> UTXO list
     \<Rightarrow> error + (transaction \<times> i64 list)" where
  "Build_run L builder pubKey to contract value0 mwUTXOs scriptUTXOs =
     (if value0 <s fee builder + dust builder
      then Inl (ErrMinimumTransfer (dust builder + fee builder) value0)
      else
        let v = value0 - fee builder in
        andThen (SerializePublicKey L (b_client builder) pubKey) (\<lambda>pubKeyBytes.
        andThen (PublicKeyToAddress L (b_client builder) pubKeyBytes) (\<lambda>fromAddr.
        andThen (DecodeAddress L to (NetworkParams (b_client builder))) (\<lambda>toAddr.
        andThen (Build_fund L builder fromAddr contract v mwUTXOs scriptUTXOs)
          (\<lambda>(recvVals, pubKeyScript, amt, sent1, m2).
        andThen (Build_outputs L builder toAddr fromAddr v amt sent1 m2)
          (\<lambda>(sent2, m4).
        andThen
          (Build_hashes L pubKeyScript contract m4 recvVals (length mwUTXOs) (length scriptUTXOs))
          (\<lambda>hashes.
             Inr (\<lparr>t_sent = sent2, t_msgTx = m4, t_hashes = hashes,
                   t_client = b_client builder, t_contract = contract,
                   t_publicKey = pubKey, t_mwIns = length mwUTXOs\<rparr>,
                  recvVals))))))))"

definition Build ::
  "libs \<Rightarrow> txBuilder \<Rightarrow> PublicKey \<Rightarrow> string \<Rightarrow> bytes option \<Rightarrow> i64 \<Rightarrow> UTXO list \<Rightarrow> UTXO list
     \<Rightarrow> error + transaction" where
  "Build L builder pubKey to contract value0 mwUTXOs scriptUTXOs =
     andThen (Build_run L builder pubKey to contract value0 mwUTXOs scriptUTXOs)
       (\<lambda>(t, recvVals). Inr t)"

definition Hashes :: "transaction \<Rightarrow> bytes list" where
  "Hashes t = t_hashes t"

text \<open>The items that \<open>InjectSigs\<close> pushes for the signature of index \<open>i\<close>: the
  signature with the hash type byte, the serialized public key and, for an input of the
  contract, the contract.\<close>

definition sigScriptItems ::
  "libs \<Rightarrow> transaction \<Rightarrow> bytes \<Rightarrow> nat \<Rightarrow> Signature \<Rightarrow> script_item list" where
  "sigScriptItems L t serializedPublicKey i sig =
     [AddData (sigSerialize L sig @ [ucast SigHashAll]), AddData serializedPublicKey]
     @ (case t_contract t of
          Some c \<Rightarrow> if i \<ge> t_mwIns t then [AddData c] else []
        | None \<Rightarrow> [])"

definition setSignatureScript :: "transaction \<Rightarrow> nat \<Rightarrow> bytes \<Rightarrow> transaction" where
  "setSignatureScript t i sigScript =
     t\<lparr>t_msgTx := (t_msgTx t)\<lparr>TxIns :=
          (TxIns (t_msgTx t))[i := (TxIns (t_msgTx t) ! i)\<lparr>SignatureScript := sigScript\<rparr>]\<rparr>\<rparr>"

text \<open>\<open>InjectSigs\<close> writes through the pointer to the transaction, so the model returns
  the transaction as the call leaves it together with the error, if any. The loop runs
  over the signatures; \<open>TxIn[i]\<close> panics when there is no such input.\<close>

fun InjectSigs_loop ::
  "libs \<Rightarrow> bytes \<Rightarrow> transaction \<Rightarrow> nat \<Rightarrow> Signature list \<Rightarrow> transaction \<times> error option" where
  "InjectSigs_loop L serializedPublicKey t i [] = (t, None)"
| "InjectSigs_loop L serializedPublicKey t i (sig # sigs) =
     (case scriptBuilderScript L (sigScriptItems L t serializedPublicKey i sig) of
        None \<Rightarrow> (t, Some (ErrLib ScriptBuilderScript))
      | Some sigScript \<Rightarrow>
          if i \<ge> length (TxIns (t_msgTx t)) then (t, Some Panic)
          else InjectSigs_loop L serializedPublicKey (setSignatureScript t i sigScript)
                 (Suc i) sigs)"

definition InjectSigs :: "libs \<Rightarrow> transaction \<Rightarrow> Signature list \<Rightarrow> transaction \<times> error option" where
  "InjectSigs L t sigs =
     (case SerializePublicKey L (t_client t) (t_publicKey t) of
        Inl e \<Rightarrow> (t, Some e)
      | Inr serializedPublicKey \<Rightarrow> InjectSigs_loop L serializedPublicKey t 0 sigs)"

section \<open>The account: funding, signing and sending a transaction\<close>

definition MaxZCashFee :: i64 where "MaxZCashFee = 10000"

text \<open>The struct \<open>account\<close> (without its logger) and the struct \<open>tx\<close>, whose pointer to
  the account is passed separately. \<open>fund\<close> makes two requests to the indexer: request
  0 for the balance and request 1 for the UTXO list; \<open>fundAll\<close> makes one.\<close>

record account =
  PrivKey :: PrivateKey
  a_client :: Client

record tx =
  receiveValues :: "i64 list"
  scriptPublicKey :: bytes
  msgTx :: MsgTx

definition newTx :: "MsgTx \<Rightarrow> tx" where
  "newTx m = \<lparr>receiveValues = [], scriptPublicKey = [], msgTx = m\<rparr>"

definition SerializedPublicKey :: "libs \<Rightarrow> account \<Rightarrow> error + bytes" where
  "SerializedPublicKey L acct = SerializePublicKey L (a_client acct) (PubKey L (PrivKey acct))"

definition account_Address :: "libs \<Rightarrow> account \<Rightarrow> error + Address" where
  "account_Address L acct =
     andThen (SerializedPublicKey L acct) (\<lambda>pubKeyBytes.
       PublicKeyToAddress L (a_client acct) pubKeyBytes)"

text \<open>The first loop of \<open>fund\<close>: every output must carry at least 600, and the values
  are summed up. The index counts the outputs seen.\<close>

fun fund_outputs :: "TxOut list \<Rightarrow> nat \<Rightarrow> i64 \<Rightarrow> error + i64" where
  "fund_outputs [] i v = Inr v"
| "fund_outputs (j # js) i v =
     (if Value j <s 600 then Inl (ErrDustOutput i (Value j))
      else fund_outputs js (Suc i) (v + Value j))"

text \<open>The body that the loops of \<open>fund\<close> and \<open>fundAll\<close> share for a UTXO that is
  not skipped: the first script seen becomes the canonical one, the amount is appended
  to \<open>receiveValues\<close>, and an input spending the UTXO is added.\<close>

definition takeUTXO :: "tx \<Rightarrow> bytes \<Rightarrow> bytes \<Rightarrow> UTXO \<Rightarrow> tx" where
  "takeUTXO t spk h j =
     t\<lparr>scriptPublicKey := (if length (scriptPublicKey t) = 0 then spk else scriptPublicKey t),
       receiveValues := receiveValues t @ [Amount j],
       msgTx := AddTxIn (msgTx t) (NewTxIn (NewOutPoint h (Vout j)) [])\<rparr>"

text \<open>The second loop of \<open>fund\<close> over the UTXOs, on the transaction and the value still
  to cover. A UTXO whose script differs from the canonical one is skipped; the loop
  breaks as soon as the value is at most minus the fee.\<close>

fun fund_loop :: "libs \<Rightarrow> UTXO list \<Rightarrow> tx \<times> i64 \<Rightarrow> error + (tx \<times> i64)" where
  "fund_loop L [] (t, v) = Inr (t, v)"
| "fund_loop L (j # utxos) (t, v) =
     (case hexDecodeString L (ScriptPubKey j) of
        None \<Rightarrow> Inl (ErrLib HexDecodeString)
      | Some spk \<Rightarrow>
          if length (scriptPublicKey t) \<noteq> 0 \<and> scriptPublicKey t \<noteq> spk
          then fund_loop L utxos (t, v)
          else
            (case chainhashNewHashFromStr L (TxHash j) of
               None \<Rightarrow> Inl (ErrLib NewHashFromStr)
             | Some h \<Rightarrow>
                 if v - Amount j \<le>s - MaxZCashFee
                 then Inr (takeUTXO t spk h j, v - Amount j)
                 else fund_loop L utxos (takeUTXO t spk h j, v - Amount j)))"

definition fund :: "libs \<Rightarrow> account \<Rightarrow> tx \<Rightarrow> Address option \<Rightarrow> error + tx" where
  "fund L acct t addr0 =
     andThen (case addr0 of None \<Rightarrow> account_Address L acct | Some a \<Rightarrow> Inr a) (\<lambda>addr.
     andThen (fund_outputs (TxOuts (msgTx t)) 0 0) (\<lambda>v.
     andThen (Balance (a_client acct) 0 (EncodeAddress L addr) 0) (\<lambda>balance.
     if balance <s v + MaxZCashFee
     then Inl (ErrInsufficientBalance (EncodeAddress L addr) (v + MaxZCashFee) balance)
     else
     andThen
       (case GetUTXOs (a_client acct) 1 (EncodeAddress L addr) 999999 0 of
          None \<Rightarrow> Inl (ErrLib GetUTXOsCall) | Some utxos \<Rightarrow> Inr utxos)
       (\<lambda>utxos.
     andThen (fund_loop L utxos (t, v)) (\<lambda>(t', v').
     if v' \<le>s - MaxZCashFee
     then andThen (PayToAddrScript L addr) (\<lambda>P2PKHScript.
            Inr (t'\<lparr>msgTx := AddTxOut (msgTx t') (NewTxOut (- v') P2PKHScript)\<rparr>))
     else Inl ErrMismatchedPubKeys)))))"

fun fundAll_loop :: "libs \<Rightarrow> UTXO list \<Rightarrow> tx \<Rightarrow> error + tx" where
  "fundAll_loop L [] t = Inr t"
| "fundAll_loop L (j # utxos) t =
     (case hexDecodeString L (ScriptPubKey j) of
        None \<Rightarrow> Inl (ErrLib HexDecodeString)
      | Some spk \<Rightarrow>
          if length (scriptPublicKey t) \<noteq> 0 \<and> scriptPublicKey t \<noteq> spk
          then fundAll_loop L utxos t
          else
            (case chainhashNewHashFromStr L (TxHash j) of
               None \<Rightarrow> Inl (ErrLib NewHashFromStr)
             | Some h \<Rightarrow> fundAll_loop L utxos (takeUTXO t spk h j)))"

definition fundAll :: "libs \<Rightarrow> account \<Rightarrow> tx \<Rightarrow> Address \<Rightarrow> error + tx" where
  "fundAll L acct t addr =
     andThen
       (case GetUTXOs (a_client acct) 0 (EncodeAddress L addr) 1000 0 of
          None \<Rightarrow> Inl (ErrLib GetUTXOsCall) | Some utxos \<Rightarrow> Inr utxos)
       (\<lambda>utxos. fundAll_loop L utxos t)"

text \<open>\<open>sign\<close>: for each input in turn, the callback \<open>updateTxIn\<close> may change the input,
  the signature is made over the transaction as it then stands, and the script is built
  from the signature, the public key, whatever the callback \<open>f\<close> adds, and the contract.
  \<open>receiveValues[i]\<close> panics when the transaction has more inputs than \<open>fund\<close> added.\<close>

fun sign_loop ::
  "libs \<Rightarrow> account \<Rightarrow> bytes \<Rightarrow> bytes \<Rightarrow> (script_item list \<Rightarrow> script_item list) option
     \<Rightarrow> (TxIn \<Rightarrow> TxIn) option \<Rightarrow> bytes option \<Rightarrow> nat list \<Rightarrow> tx \<Rightarrow> error + tx" where
  "sign_loop L acct subScript serializedPublicKey f updateTxIn contract [] t = Inr t"
| "sign_loop L acct subScript serializedPublicKey f updateTxIn contract (i # idxs) t =
     (let m = msgTx t;
          txin = (case updateTxIn of None \<Rightarrow> TxIns m ! i | Some g \<Rightarrow> g (TxIns m ! i));
          m1 = m\<lparr>TxIns := (TxIns m)[i := txin]\<rparr>
      in if i \<ge> length (receiveValues t) then Inl Panic
         else
           (case zecRawTxInSignature L m1 (int i) subScript SigHashAll (PrivKey acct)
                   (receiveValues t ! i) of
              None \<Rightarrow> Inl (ErrLib RawTxInSignature)
            | Some sig \<Rightarrow>
                (let items = [AddData sig, AddData serializedPublicKey];
                     items1 = (case f of None \<Rightarrow> items | Some g \<Rightarrow> g items);
                     items2 = items1 @ (case contract of None \<Rightarrow> [] | Some c \<Rightarrow> [AddData c])
                 in case scriptBuilderScript L items2 of
                      None \<Rightarrow> Inl (ErrLib ScriptBuilderScript)
                    | Some sigScript \<Rightarrow>
                        sign_loop L acct subScript serializedPublicKey f updateTxIn contract idxs
                          (t\<lparr>msgTx := m1\<lparr>TxIns :=
                               (TxIns m1)[i := txin\<lparr>SignatureScript := sigScript\<rparr>]\<rparr>\<rparr>))))"

definition sign ::
  "libs \<Rightarrow> account \<Rightarrow> tx \<Rightarrow> (script_item list \<Rightarrow> script_item list) option
     \<Rightarrow> (TxIn \<Rightarrow> TxIn) option \<Rightarrow> bytes option \<Rightarrow> error + tx" where
  "sign L acct t f updateTxIn contract =
     (let subScript = (case contract of None \<Rightarrow> scriptPublicKey t | Some c \<Rightarrow> c)
      in andThen (SerializedPublicKey L acct) (\<lambda>serializedPublicKey.
           sign_loop L acct subScript serializedPublicKey f updateTxIn contract
             [0 ..< length (TxIns (msgTx t))] t))"

text \<open>What a call of \<open>SendTransaction\<close> meets outside: whether the context is done when
  the round of the given number starts, and whether the publication of the given number
  succeeds. The post-condition is a callback that reads the network, so it is a function
  of the number of the poll as well.\<close>

record world =
  ctxDone :: "nat \<Rightarrow> bool"
  publishOK :: "nat \<Rightarrow> bytes \<Rightarrow> bool"

datatype event = EvPublish bytes | EvPoll bool | EvSleep nat

definition submit :: "libs \<Rightarrow> world \<Rightarrow> nat \<Rightarrow> tx \<Rightarrow> error + bytes" where
  "submit L W r t =
     (case ZecEncode L (msgTx t) of
        None \<Rightarrow> Inl (ErrLib ZecEncodeCall)
      | Some buf \<Rightarrow>
          if publishOK W r buf then Inr buf else Inl (ErrLib PublishTransactionCall))"

text \<open>The inner loop: up to 60 polls, with a sleep of five seconds after each poll that
  fails. The first argument counts the polls that are left, the second the polls made
  since the call began. The result tells whether a poll succeeded.\<close>

fun poll_loop ::
  "nat \<Rightarrow> nat \<Rightarrow> (nat \<Rightarrow> MsgTx \<Rightarrow> bool) option \<Rightarrow> MsgTx \<Rightarrow> bool \<times> nat \<times> event list" where
  "poll_loop 0 p postCond m = (False, p, [])"
| "poll_loop (Suc k) p postCond m =
     (case postCond of
        None \<Rightarrow> (True, p, [])
      | Some pc \<Rightarrow>
          if pc p m then (True, Suc p, [EvPoll True])
          else (case poll_loop k (Suc p) postCond m of
                  (ok, p', evs) \<Rightarrow> (ok, p', EvPoll False # EvSleep 5 # evs)))"

text \<open>The outer loop of \<open>SendTransaction\<close>, which has no bound of its own: the first
  argument is the number of rounds the model may run, and the result is \<open>None\<close> when
  they do not suffice. A round returns when the context is done, publishes the
  transaction, returns the error of a failed publication, and polls; when no poll
  succeeds the next round starts.\<close>

fun submit_loop ::
  "nat \<Rightarrow> libs \<Rightarrow> world \<Rightarrow> (nat \<Rightarrow> MsgTx \<Rightarrow> bool) option \<Rightarrow> tx \<Rightarrow> nat \<Rightarrow> nat
     \<Rightarrow> ((error + string \<times> i64) \<times> event list) option" where
  "submit_loop 0 L W postCond t r p = None"
| "submit_loop (Suc n) L W postCond t r p =
     (if ctxDone W r then Some (Inl ErrPostConditionCheckFailed, [])
      else
        (case submit L W r t of
           Inl e \<Rightarrow> Some (Inl e, [])
         | Inr buf \<Rightarrow>
             (case poll_loop 60 p postCond (msgTx t) of
                (ok, p', evs) \<Rightarrow>
                  if ok
                  then Some (Inr (TxHashString L (msgTx t), MaxZCashFee), EvPublish buf # evs)
                  else map_option (\<lambda>(res, evs'). (res, EvPublish buf # evs @ evs'))
                         (submit_loop n L W postCond t (Suc r) p'))))"

text \<open>The part of \<open>SendTransaction\<close> before the loop: the pre-condition (a callback on
  the \<open>wire.MsgTx\<close>, which cannot reach the expiry height), the source address, the
  funding, the fee taken from the last output, and the signatures.\<close>

definition deductFee :: "tx \<Rightarrow> error + tx" where
  "deductFee t =
     (let outs = TxOuts (msgTx t)
      in if length outs = 0 then Inl Panic
         else Inr (t\<lparr>msgTx := (msgTx t)\<lparr>TxOuts :=
                     outs[length outs - 1 :=
                       (outs ! (length outs - 1))\<lparr>Value :=
                          Value (outs ! (length outs - 1)) - MaxZCashFee\<rparr>]\<rparr>\<rparr>))"

definition prepare ::
  "libs \<Rightarrow> account \<Rightarrow> bytes option \<Rightarrow> (TxIn \<Rightarrow> TxIn) option \<Rightarrow> (MsgTx \<Rightarrow> bool \<times> MsgTx) option
     \<Rightarrow> (script_item list \<Rightarrow> script_item list) option \<Rightarrow> bool \<Rightarrow> error + tx" where
  "prepare L acct contract updateTxIn preCond f sendAll =
     (let t0 = newTx (NewMsgTx 4);
          (ok, m) = (case preCond of
                       None \<Rightarrow> (True, msgTx t0)
                     | Some pc \<Rightarrow>
                         (fst (pc (msgTx t0)),
                          (snd (pc (msgTx t0)))\<lparr>ExpiryHeight := ExpiryHeight (msgTx t0)\<rparr>))
      in if ok = False then Inl ErrPreConditionCheckFailed
         else
           andThen
             (case contract of
                None \<Rightarrow> account_Address L acct
              | Some c \<Rightarrow>
                  AddressFromHash160 L (copy20 (btcutilHash160 L c))
                    (NetworkParams (a_client acct)) True)
             (\<lambda>address.
           andThen
             (if sendAll then fundAll L acct (t0\<lparr>msgTx := m\<rparr>) address
              else fund L acct (t0\<lparr>msgTx := m\<rparr>) (Some address))
             (\<lambda>t1.
           andThen (deductFee t1) (\<lambda>t2.
             sign L acct t2 f updateTxIn contract))))"

definition SendTransaction ::
  "nat \<Rightarrow> libs \<Rightarrow> world \<Rightarrow> account \<Rightarrow> bytes option \<Rightarrow> (TxIn \<Rightarrow> TxIn) option
     \<Rightarrow> (MsgTx \<Rightarrow> bool \<times> MsgTx) option \<Rightarrow> (script_item list \<Rightarrow> script_item list) option
     \<Rightarrow> (nat \<Rightarrow> MsgTx \<Rightarrow> bool) option \<Rightarrow> bool
     \<Rightarrow> ((error + string \<times> i64) \<times> event list) option" where
  "SendTransaction rounds L W acct contract updateTxIn preCond f postCond sendAll =
     (case prepare L acct contract updateTxIn preCond f sendAll of
        Inl e \<Rightarrow> Some (Inl e, [])
      | Inr t \<Rightarrow> submit_loop rounds L W postCond t 0 0)"

text \<open>The prefix table as the specification words it: by network and kind.\<close>

definition spec_prefix :: "string \<Rightarrow> bool \<Rightarrow> bytes" where
  "spec_prefix net isScript =
     (if net = ''mainnet'' then (if isScript then [0x1C, 0xBD] else [0x1C, 0xB8])
      else (if isScript then [0x1C, 0xBA] else [0x1D, 0x25]))"

section \<open>Concrete inputs\<close>

text \<open>A stand-in for the imported hash functions, to run the definitions on concrete
  inputs; the theorems below hold for every \<open>hash_libs\<close>. The digest is the first 32
  bytes of personalization, data and padding.\<close>

definition stub_hash_libs :: hash_libs where
  "stub_hash_libs =
     \<lparr>zecNewTxSigHashes = (\<lambda>tx. Some \<lparr>HashPrevOuts = replicate 32 1,
                                          HashSequence = replicate 32 2,
                                          HashOutputs = replicate 32 3\<rparr>),
      blake2Sum = (\<lambda>key data. take 32 (key @ data @ replicate 32 0))\<rparr>"

text \<open>A Sapling transaction with one input, one output and the default expiry height.\<close>

definition sapling_tx :: MsgTx where
  "sapling_tx =
     \<lparr>Version = 4,
      TxIns = [\<lparr>PreviousOutPoint = \<lparr>Hash = replicate 32 0xAA, Index = 0\<rparr>,
                SignatureScript = [], Sequence = 0xffffffff\<rparr>],
      TxOuts = [\<lparr>Value = 20000, PkScript = [0x76, 0xA9]\<rparr>],
      LockTime = 0,
      ExpiryHeight = 6000000\<rparr>"

text \<open>Stand-ins for the imported packages, to run the definitions on concrete inputs;
  the theorems hold for every \<open>libs\<close>. Hexadecimal strings are decoded as the Go library
  does, and a hash string of odd length is first padded with a zero digit; a script
  pushes each item behind its length; hashes, addresses, keys and
  signatures are replaced by short byte strings.\<close>

fun hex_digit :: "char \<Rightarrow> nat option" where
  "hex_digit c =
     (let n = of_char c :: nat
      in if 48 \<le> n \<and> n \<le> 57 then Some (n - 48)
         else if 97 \<le> n \<and> n \<le> 102 then Some (n - 87)
         else if 65 \<le> n \<and> n \<le> 70 then Some (n - 55)
         else None)"

fun hex_decode :: "string \<Rightarrow> bytes option" where
  "hex_decode [] = Some []"
| "hex_decode [c] = None"
| "hex_decode (c # d # cs) =
     (case (hex_digit c, hex_digit d, hex_decode cs) of
        (Some h, Some l, Some bs) \<Rightarrow> Some (of_nat (16 * h + l) # bs)
      | _ \<Rightarrow> None)"

fun stub_push :: "script_item \<Rightarrow> bytes" where
  "stub_push (AddData d) = of_nat (length d) # d"
| "stub_push (AddOp b) = [b]"

definition stub_libs :: libs where
  "stub_libs =
     \<lparr>hashLibs = stub_hash_libs,
      btcutilHash160 = (\<lambda>b. take 20 (b @ replicate 20 0)),
      sha256Sum256 = (\<lambda>b. take 32 (b @ replicate 32 0)),
      base58Encode = map (\<lambda>w. char_of (unat w)),
      zecDecodeAddress = (\<lambda>s net.
         if length s = 26
         then Some \<lparr>isScriptHash = (take 2 s \<noteq> map (\<lambda>w. char_of (unat w)) (prefix_of net ''pubkey'')),
                    hash160 = map (\<lambda>c. of_nat (of_char c)) (take 20 (drop 2 s)),
                    netName = net\<rparr>
         else None),
      zecPayToAddrScript = (\<lambda>a. Some (
         if isScriptHash a then [0xA9, 0x14] @ hash160 a @ [0x87]
         else [0x76, 0xA9, 0x14] @ hash160 a @ [0x88, 0xAC])),
      EncodeAddress = (\<lambda>a. map (\<lambda>w. char_of (unat w))
         (prefix_of (netName a) (if isScriptHash a then ''script'' else ''pubkey'') @ hash160 a
          @ replicate 4 0)),
      hexDecodeString = hex_decode,
      chainhashNewHashFromStr = (\<lambda>s.
         if length s > 64 then None
         else map_option (\<lambda>b. take 32 (rev b @ replicate 32 0))
                (hex_decode (if odd (length s) then CHR ''0'' # s else s))),
      SerializeCompressed = (\<lambda>k. case k of PublicKey x y \<Rightarrow> [if even y then 2 else 3, of_int x]),
      SerializeUncompressed = (\<lambda>k. case k of PublicKey x y \<Rightarrow> [4, of_int x, of_int y]),
      sigSerialize = (\<lambda>s. case s of Signature r t \<Rightarrow> [0x30, of_int r, of_int t]),
      scriptBuilderScript = (\<lambda>items.
         if list_all (\<lambda>i. case i of AddData d \<Rightarrow> length d \<le> 520 | AddOp b \<Rightarrow> True) items
         then Some (concat (map stub_push items)) else None),
      PubKey = (\<lambda>k. case k of PrivateKey d \<Rightarrow> PublicKey d (d + 1)),
      zecRawTxInSignature = (\<lambda>tx idx subScript hashType key amt.
         case key of PrivateKey d \<Rightarrow> Some [0x30, of_int d, of_int idx, 0x01]),
      ZecEncode = (\<lambda>tx. Some (le32 (Version tx OR push_bit 31 1)
         @ [of_nat (length (TxIns tx)), of_nat (length (TxOuts tx))])),
      TxHashString = (\<lambda>tx. ''txid'')\<rparr>"

section \<open>Notions for stating the properties\<close>

text \<open>The UTXOs that the loop of \<open>fundZecTx\<close> turns into inputs, and the values it
  leaves in \<open>receiveValues\<close>, as functions of the canonical script at the start.\<close>

fun funded :: "libs \<Rightarrow> bytes \<Rightarrow> UTXO list \<Rightarrow> UTXO list" where
  "funded L spk [] = []"
| "funded L spk (u # us) =
     (case hexDecodeString L (ScriptPubKey u) of
        None \<Rightarrow> []
      | Some s \<Rightarrow>
          if spk \<noteq> [] \<and> spk \<noteq> s then funded L spk us
          else u # funded L (if spk = [] then s else spk) us)"

fun received :: "libs \<Rightarrow> bytes \<Rightarrow> UTXO list \<Rightarrow> i64 list" where
  "received L spk [] = []"
| "received L spk (u # us) =
     (case hexDecodeString L (ScriptPubKey u) of
        None \<Rightarrow> []
      | Some s \<Rightarrow>
          if spk \<noteq> [] \<and> spk \<noteq> s then 0 # received L spk us
          else Amount u # received L (if spk = [] then s else spk) us)"

definition inputOf :: "libs \<Rightarrow> UTXO \<Rightarrow> TxIn" where
  "inputOf L u =
     NewTxIn (NewOutPoint (the (chainhashNewHashFromStr L (TxHash u))) (Vout u)) []"

text \<open>A client on testnet3, a public key, a destination address as the stand-in codec
  encodes it, and UTXOs of one script.\<close>

definition test_client :: Client where
  "test_client = \<lparr>NetworkParams = TestNet3Params, GetUTXOs = (\<lambda>k address limit confirmations. Some [])\<rparr>"

definition test_pubKey :: PublicKey where
  "test_pubKey = PublicKey 1 2"

definition test_to :: string where
  "test_to = map (\<lambda>w. char_of (unat w)) ([0x1D, 0x25] @ replicate 20 (0x42 :: byte) @ replicate 4 0)"

definition utxo_a1 :: UTXO where
  "utxo_a1 = \<lparr>TxHash = ''a1'', Amount = 20300, ScriptPubKey = ''76a9'', Vout = 0\<rparr>"

text \<open>The fee a built transaction pays: the sum of the amounts of its inputs minus the
  sum of the values of its outputs, in the arithmetic of \<open>int64\<close>.\<close>

definition fee_paid :: "transaction \<times> i64 list \<Rightarrow> i64" where
  "fee_paid r = sum_i64 (snd r) - sum_i64 (map Value (TxOuts (t_msgTx (fst r))))"

definition utxo_a2 :: UTXO where
  "utxo_a2 = \<lparr>TxHash = ''a1'', Amount = 50000, ScriptPubKey = ''76a9'', Vout = 1\<rparr>"




definition test_sig1 :: Signature where "test_sig1 = Signature 11 12"
definition test_sig2 :: Signature where "test_sig2 = Signature 21 22"

text \<open>The transaction that \<open>Build\<close> returns for the value 20000 and one UTXO of 50000.\<close>

definition built_tx :: transaction where
  "built_tx = fst (projr (Build_run stub_libs (NewTxBuilder test_client) test_pubKey test_to
                            None 20000 [utxo_a2] []))"

text \<open>A client whose address holds two UTXOs of different scripts, an account on it, and
  a transaction with one output of 20000.\<close>

definition utxo_b2 :: UTXO where
  "utxo_b2 = \<lparr>TxHash = ''b2'', Amount = 15000, ScriptPubKey = ''a914'', Vout = 0\<rparr>"

definition utxo_a4 :: UTXO where
  "utxo_a4 = \<lparr>TxHash = ''a4'', Amount = 15000, ScriptPubKey = ''76a9'', Vout = 0\<rparr>"

definition mixed_client :: Client where
  "mixed_client =
     \<lparr>NetworkParams = TestNet3Params,
      GetUTXOs = (\<lambda>k address limit confirmations. Some [utxo_a4, utxo_b2])\<rparr>"

definition mixed_account :: account where
  "mixed_account = \<lparr>PrivKey = PrivateKey 1, a_client = mixed_client\<rparr>"



text \<open>A world in which the context is never done and every publication succeeds.\<close>

definition quiet_world :: world where
  "quiet_world = \<lparr>ctxDone = (\<lambda>r. False), publishOK = (\<lambda>r buf. True)\<rparr>"

text \<open>Counting the publications and the polls of a trace, and the traces of \<open>k\<close> failed
  polls and of \<open>R\<close> rounds in which all 60 polls fail.\<close>

fun is_publish :: "event \<Rightarrow> bool" where
  "is_publish (EvPublish buf) = True"
| "is_publish e = False"

fun is_poll :: "event \<Rightarrow> bool" where
  "is_poll (EvPoll b) = True"
| "is_poll e = False"

fun failed_polls :: "nat \<Rightarrow> event list" where
  "failed_polls 0 = []"
| "failed_polls (Suc k) = EvPoll False # EvSleep 5 # failed_polls k"

fun failed_rounds :: "bytes \<Rightarrow> nat \<Rightarrow> event list" where
  "failed_rounds buf 0 = []"
| "failed_rounds buf (Suc R) = EvPublish buf # failed_polls 60 @ failed_rounds buf R"

text \<open>An account whose address holds one UTXO of 50000, the pre-condition of a transfer of
  20000, and a post-condition that holds from the poll of number 60 on.\<close>

definition rich_client :: Client where
  "rich_client =
     \<lparr>NetworkParams = TestNet3Params,
      GetUTXOs = (\<lambda>k address limit confirmations. Some [utxo_a2])\<rparr>"

definition rich_account :: account where
  "rich_account = \<lparr>PrivKey = PrivateKey 1, a_client = rich_client\<rparr>"

definition pay_20000 :: "MsgTx \<Rightarrow> bool \<times> MsgTx" where
  "pay_20000 m = (True, AddTxOut m (NewTxOut 20000 [0x76, 0xA9]))"

definition late_postCond :: "nat \<Rightarrow> MsgTx \<Rightarrow> bool" where
  "late_postCond q m = (60 \<le> q)"

text \<open>A world in which the context is never done and every publication but the first
  is refused, a world in which the context is done from the second round on, and a
  post-condition that never holds.\<close>

definition refusing_world :: world where
  "refusing_world = \<lparr>ctxDone = (\<lambda>r. False), publishOK = (\<lambda>r buf. r < 1)\<rparr>"

definition cancelled_world :: world where
  "cancelled_world = \<lparr>ctxDone = (\<lambda>r. 1 \<le> r), publishOK = (\<lambda>r buf. True)\<rparr>"

definition never_postCond :: "nat \<Rightarrow> MsgTx \<Rightarrow> bool" where
  "never_postCond q m = False"



definition amounts :: "UTXO list \<Rightarrow> int" where
  "amounts utxos = sum_list (map (\<lambda>j. sint (Amount j)) utxos)"



section \<open>Properties\<close>

subsection \<open>The consensus branch of the signature hash\<close>

lemma upgradeParams_nth:
  "length upgradeParams = Suc (Suc (Suc 0))"
  "upgradeParams ! 0 = \<lparr>ActivationHeight = 0, BranchID = [0x00, 0x00, 0x00, 0x00]\<rparr>"
  "upgradeParams ! Suc 0 = \<lparr>ActivationHeight = 207500, BranchID = [0x19, 0x1B, 0xA8, 0x5B]\<rparr>"
  "upgradeParams ! Suc (Suc 0) = \<lparr>ActivationHeight = 280000, BranchID = [0xBB, 0x09, 0xB8, 0x76]\<rparr>"
  by (simp_all add: upgradeParams_def)

lemma sigHashKey_loop_cases:
  "sigHashKey_loop upgradeParams (length upgradeParams) h =
     (if 280000 \<le> h then 2 else if 207500 \<le> h then 1 else 0)"
  by (simp add: upgradeParams_nth)

lemma sigHashKey_cases:
  "sigHashKey h =
     Inr (blake2BSigHash @
          (if 280000 \<le> h then [0xBB, 0x09, 0xB8, 0x76]
           else if 207500 \<le> h then [0x19, 0x1B, 0xA8, 0x5B]
           else [0x00, 0x00, 0x00, 0x00]))"
  unfolding sigHashKey_def sigHashKey_loop_cases
  by (simp add: upgradeParams_nth eval_nat_numeral)

lemma le32_sapling_branch: "le32 0x76B809BB = [0xBB, 0x09, 0xB8, 0x76]"
  by (simp add: le32_def)

lemma sigHashKey_selects:
  "\<exists>p \<in> set upgradeParams.
      ActivationHeight p \<le> h
    \<and> (\<forall>q \<in> set upgradeParams. ActivationHeight q \<le> h \<longrightarrow> ActivationHeight q \<le> ActivationHeight p)
    \<and> sigHashKey h = Inr (blake2BSigHash @ BranchID p)
    \<and> (h = 6000000 \<longrightarrow> ActivationHeight p = 280000 \<and> BranchID p = [0xBB, 0x09, 0xB8, 0x76])"
proof -
  consider (a) "280000 \<le> h" | (b) "\<not> 280000 \<le> h" "207500 \<le> h" | (c) "\<not> 280000 \<le> h" "\<not> 207500 \<le> h"
    by blast
  then show ?thesis
  proof cases
    case a
    have "207500 \<le> h" using a by (simp add: word_le_nat_alt)
    with a show ?thesis
      by (intro bexI [where x = "\<lparr>ActivationHeight = 280000, BranchID = [0xBB, 0x09, 0xB8, 0x76]\<rparr>"])
         (simp_all add: sigHashKey_cases upgradeParams_def)
  next
    case b
    then have "h \<noteq> 6000000" by auto
    with b show ?thesis
      by (intro bexI [where x = "\<lparr>ActivationHeight = 207500, BranchID = [0x19, 0x1B, 0xA8, 0x5B]\<rparr>"])
         (simp_all add: sigHashKey_cases upgradeParams_def)
  next
    case c
    then have "h \<noteq> 6000000" by auto
    with c show ?thesis
      by (intro bexI [where x = "\<lparr>ActivationHeight = 0, BranchID = [0x00, 0x00, 0x00, 0x00]\<rparr>"])
         (simp_all add: sigHashKey_cases upgradeParams_def)
  qed
qed

lemma sapling_tx_fields:
  "Version sapling_tx = 4" "ExpiryHeight sapling_tx = 6000000" "LockTime sapling_tx = 0"
  "length (TxIns sapling_tx) = 1"
  by (simp_all add: sapling_tx_def)

lemma stub_blake2bHash:
  "blake2bHash stub_hash_libs d k = Inr (take 32 (k @ d @ replicate 32 0))"
  by (simp add: blake2bHash_def stub_hash_libs_def)

text \<open>
  Claim C1. \<open>CalcSignatureHash\<close> keys the final BLAKE2b digest with
  \<open>"ZcashSigHash"\<close> followed by the branch id of the entry of \<open>upgradeParams\<close> whose
  activation height is the largest one that is at most the transaction's expiry height.
  For the expiry height 6000000 this is the entry 280000, whose four branch-id bytes are
  \<open>BB 09 B8 76\<close>, the little-endian bytes of \<open>0x76B809BB\<close>.
\<close>

theorem CalcSignatureHash_branch_key:
  "\<exists>p \<in> set upgradeParams.
      ActivationHeight p \<le> ExpiryHeight tx
    \<and> (\<forall>q \<in> set upgradeParams.
          ActivationHeight q \<le> ExpiryHeight tx \<longrightarrow> ActivationHeight q \<le> ActivationHeight p)
    \<and> sigHashKey (ExpiryHeight tx) = Inr (blake2BSigHash @ BranchID p)
    \<and> CalcSignatureHash L subScript hashType tx idx amt =
        (case sigHashPreimage L subScript hashType tx idx amt of
           Inl e \<Rightarrow> Inl e
         | Inr sigHash \<Rightarrow> blake2bHash L sigHash (blake2BSigHash @ BranchID p))
    \<and> (ExpiryHeight tx = 6000000 \<longrightarrow>
          ActivationHeight p = 280000
        \<and> blake2BSigHash @ BranchID p =
            map (of_nat \<circ> of_char) ''ZcashSigHash'' @ [0xBB, 0x09, 0xB8, 0x76]
        \<and> BranchID p = le32 0x76B809BB)"
proof -
  obtain p where p: "p \<in> set upgradeParams" "ActivationHeight p \<le> ExpiryHeight tx"
    "\<forall>q \<in> set upgradeParams.
          ActivationHeight q \<le> ExpiryHeight tx \<longrightarrow> ActivationHeight q \<le> ActivationHeight p"
    "sigHashKey (ExpiryHeight tx) = Inr (blake2BSigHash @ BranchID p)"
    "ExpiryHeight tx = 6000000 \<longrightarrow> ActivationHeight p = 280000 \<and> BranchID p = [0xBB, 0x09, 0xB8, 0x76]"
    using sigHashKey_selects [of "ExpiryHeight tx"] by blast
  have calc: "CalcSignatureHash L subScript hashType tx idx amt =
        (case sigHashPreimage L subScript hashType tx idx amt of
           Inl e \<Rightarrow> Inl e
         | Inr sigHash \<Rightarrow> blake2bHash L sigHash (blake2BSigHash @ BranchID p))"
    by (simp add: CalcSignatureHash_def p(4) split: sum.splits)
  have last: "ExpiryHeight tx = 6000000 \<longrightarrow>
          ActivationHeight p = 280000
        \<and> blake2BSigHash @ BranchID p =
            map (of_nat \<circ> of_char) ''ZcashSigHash'' @ [0xBB, 0x09, 0xB8, 0x76]
        \<and> BranchID p = le32 0x76B809BB"
    using p(5) by (simp add: blake2BSigHash_def le32_sapling_branch)
  from p(1,2,3,4) calc last show ?thesis by blast
qed

theorem CalcSignatureHash_branch_key_witness:
  "sigHashKey (ExpiryHeight sapling_tx)
     = Inr (map (of_nat \<circ> of_char) ''ZcashSigHash'' @ [0xBB, 0x09, 0xB8, 0x76])
   \<and> CalcSignatureHash stub_hash_libs [] SigHashAll sapling_tx 0 20000 =
       (case sigHashPreimage stub_hash_libs [] SigHashAll sapling_tx 0 20000 of
          Inl e \<Rightarrow> Inl e
        | Inr sigHash \<Rightarrow>
            blake2bHash stub_hash_libs sigHash
              (map (of_nat \<circ> of_char) ''ZcashSigHash'' @ [0xBB, 0x09, 0xB8, 0x76]))"
proof -
  have e: "ExpiryHeight sapling_tx = 6000000"
    by (simp add: sapling_tx_def)
  from CalcSignatureHash_branch_key [of sapling_tx stub_hash_libs "[]" SigHashAll 0 20000] e
  obtain p :: upgradeParam where
    k: "sigHashKey (ExpiryHeight sapling_tx) = Inr (blake2BSigHash @ BranchID p)" and
    c: "CalcSignatureHash stub_hash_libs [] SigHashAll sapling_tx 0 20000 =
         (case sigHashPreimage stub_hash_libs [] SigHashAll sapling_tx 0 20000 of
            Inl e \<Rightarrow> Inl e
          | Inr sigHash \<Rightarrow> blake2bHash stub_hash_libs sigHash (blake2BSigHash @ BranchID p))" and
    b: "blake2BSigHash @ BranchID p =
          map (of_nat \<circ> of_char) ''ZcashSigHash'' @ [0xBB, 0x09, 0xB8, 0x76]"
    by blast
  from k c show ?thesis
    unfolding b by simp
qed

subsection \<open>The head of the preimage\<close>

text \<open>
  Claim C4. Whenever \<open>CalcSignatureHash\<close> builds its preimage, the preimage begins
  with the four little-endian bytes of the version with bit 31 set, followed by the four
  little-endian bytes of the version group id: \<open>0x892F2085\<close> for version 4 and
  \<open>0x03C48270\<close> for every other version.
\<close>

theorem sigHashPreimage_header:
  assumes "sigHashPreimage L subScript hashType tx idx amt = Inr pre"
  shows "take 4 pre = le32 (Version tx OR 0x80000000)
       \<and> take 4 (drop 4 pre) =
           le32 (if Version tx = 4 then 0x892F2085 else 0x03C48270)"
  using assms
  by (auto simp add: sigHashPreimage_def Let_def le32_def versionSapling_def
        versionSaplingGroupID_def versionOverwinterGroupID_def
      split: option.splits if_splits sum.splits)

theorem sigHashPreimage_header_witness:
  "\<not> isl (sigHashPreimage stub_hash_libs [] SigHashAll sapling_tx 0 20000)
   \<and> take 4 (projr (sigHashPreimage stub_hash_libs [] SigHashAll sapling_tx 0 20000))
       = [0x04, 0x00, 0x00, 0x80]
   \<and> take 4 (drop 4 (projr (sigHashPreimage stub_hash_libs [] SigHashAll sapling_tx 0 20000)))
       = [0x85, 0x20, 0x2F, 0x89]"
proof -
  have "\<exists>pre. sigHashPreimage stub_hash_libs [] SigHashAll sapling_tx 0 20000 = Inr pre"
    by (simp add: sigHashPreimage_def stub_hash_libs_def sapling_tx_def hashOutputsPart_def
        inputPart_def SigHashAll_def sigHashMask_def SigHashSingle_def SigHashNone_def Let_def)
  then obtain pre where pre: "sigHashPreimage stub_hash_libs [] SigHashAll sapling_tx 0 20000 = Inr pre"
    by blast
  from sigHashPreimage_header [OF pre] show ?thesis
    by (simp add: pre sapling_tx_fields le32_def)
qed

subsection \<open>The index check\<close>

lemma blake2bHash_not_BadIndex: "blake2bHash L d k \<noteq> Inl (ErrBadIndex i n)"
  by (simp add: blake2bHash_def Let_def)

lemma hashOutputsPart_not_BadIndex:
  "hashOutputsPart L sh hashType tx idx \<noteq> Inl (ErrBadIndex i n)"
  by (simp add: hashOutputsPart_def blake2bHash_not_BadIndex)

lemma inputPart_not_BadIndex: "inputPart subScript tx idx amt \<noteq> Inl (ErrBadIndex i n)"
  by (simp add: inputPart_def Let_def)

lemma sigHashPreimage_not_BadIndex:
  assumes "idx < int (length (TxIns tx))"
  shows "sigHashPreimage L subScript hashType tx idx amt \<noteq> Inl (ErrBadIndex i n)"
proof (cases "zecNewTxSigHashes L tx")
  case None
  then show ?thesis by (simp add: sigHashPreimage_def)
next
  case (Some sh)
  have "\<not> idx > int (length (TxIns tx)) - 1" using assms by simp
  with Some show ?thesis
    using hashOutputsPart_not_BadIndex [of L sh hashType tx idx i n]
          inputPart_not_BadIndex [of subScript tx idx amt i n]
    by (auto simp add: sigHashPreimage_def Let_def split: sum.splits)
qed

text \<open>
  Claim C5. For an index that is at least the number of inputs, \<open>CalcSignatureHash\<close>
  returns an error and no digest, and the error is the index error as soon as the cached
  digests of the transaction were computed; for a smaller index it never returns the
  index error.
\<close>

theorem CalcSignatureHash_index_check:
  "(idx \<ge> int (length (TxIns tx)) \<longrightarrow>
      isl (CalcSignatureHash L subScript hashType tx idx amt)
    \<and> (zecNewTxSigHashes L tx \<noteq> None \<longrightarrow>
         CalcSignatureHash L subScript hashType tx idx amt
           = Inl (ErrBadIndex idx (length (TxIns tx)))))
   \<and> (idx < int (length (TxIns tx)) \<longrightarrow>
        (\<forall>i n. CalcSignatureHash L subScript hashType tx idx amt \<noteq> Inl (ErrBadIndex i n)))"
proof (intro conjI impI allI)
  assume "int (length (TxIns tx)) \<le> idx"
  then show "isl (CalcSignatureHash L subScript hashType tx idx amt)"
    by (simp add: CalcSignatureHash_def sigHashPreimage_def split: option.splits)
next
  assume "int (length (TxIns tx)) \<le> idx" "zecNewTxSigHashes L tx \<noteq> None"
  then show "CalcSignatureHash L subScript hashType tx idx amt
           = Inl (ErrBadIndex idx (length (TxIns tx)))"
    by (auto simp add: CalcSignatureHash_def sigHashPreimage_def split: option.splits)
next
  fix i n
  assume "idx < int (length (TxIns tx))"
  then have "sigHashPreimage L subScript hashType tx idx amt \<noteq> Inl (ErrBadIndex i n)"
    by (rule sigHashPreimage_not_BadIndex)
  then show "CalcSignatureHash L subScript hashType tx idx amt \<noteq> Inl (ErrBadIndex i n)"
    by (auto simp add: CalcSignatureHash_def sigHashKey_cases blake2bHash_not_BadIndex
        split: sum.splits)
qed

theorem CalcSignatureHash_index_check_witness:
  "CalcSignatureHash stub_hash_libs [] SigHashAll sapling_tx 1 20000 = Inl (ErrBadIndex 1 1)
   \<and> \<not> isl (CalcSignatureHash stub_hash_libs [] SigHashAll sapling_tx 0 20000)"
proof -
  have a: "int (length (TxIns sapling_tx)) \<le> 1" "zecNewTxSigHashes stub_hash_libs sapling_tx \<noteq> None"
    by (simp_all add: sapling_tx_fields stub_hash_libs_def)
  have b: "CalcSignatureHash stub_hash_libs [] SigHashAll sapling_tx 1 20000 = Inl (ErrBadIndex 1 1)"
    using CalcSignatureHash_index_check [of sapling_tx 1 stub_hash_libs "[]" SigHashAll 20000] a
    by (simp add: sapling_tx_fields)
  have "\<exists>pre. sigHashPreimage stub_hash_libs [] SigHashAll sapling_tx 0 20000 = Inr pre"
    by (simp add: sigHashPreimage_def stub_hash_libs_def sapling_tx_def hashOutputsPart_def
        inputPart_def SigHashAll_def sigHashMask_def SigHashSingle_def SigHashNone_def Let_def)
  then obtain pre where pre: "sigHashPreimage stub_hash_libs [] SigHashAll sapling_tx 0 20000 = Inr pre"
    by blast
  have "CalcSignatureHash stub_hash_libs [] SigHashAll sapling_tx 0 20000
          = blake2bHash stub_hash_libs pre (blake2BSigHash @ [0xBB, 0x09, 0xB8, 0x76])"
    by (simp add: CalcSignatureHash_def pre sigHashKey_cases sapling_tx_fields)
  then have c: "\<not> isl (CalcSignatureHash stub_hash_libs [] SigHashAll sapling_tx 0 20000)"
    by (simp add: stub_blake2bHash)
  from b c show ?thesis by simp
qed

subsection \<open>The address encoder\<close>

lemma prefix_of_table:
  "prefix_of ''mainnet'' ''pubkey'' = [0x1C, 0xB8]"
  "prefix_of ''mainnet'' ''script'' = [0x1C, 0xBD]"
  "prefix_of ''testnet3'' ''pubkey'' = [0x1D, 0x25]"
  "prefix_of ''testnet3'' ''script'' = [0x1C, 0xBA]"
  "prefix_of ''regtest'' ''pubkey'' = [0x1D, 0x25]"
  "prefix_of ''regtest'' ''script'' = [0x1C, 0xBA]"
  by (simp_all add: prefix_of_def prefixes_def)

lemma encodeHash_eq:
  "encodeHash L h p =
     base58Encode L (p @ h @ take 4 (sha256Sum256 L (sha256Sum256 L (p @ h))))"
  by (simp add: encodeHash_def addrChecksum_def Let_def)

text \<open>
  Claim C8. For the networks mainnet, testnet3 and regtest and either kind, the prefix that
  \<open>AddressFromHash160\<close> reads from its table is the one of the specification's table,
  and the address is decoded from the Base58 encoding of prefix, hash and checksum, the
  checksum being the first four bytes of the double SHA-256 of prefix and hash.
\<close>

theorem AddressFromHash160_encoding:
  assumes "Name params \<in> {''mainnet'', ''testnet3'', ''regtest''}"
  shows "prefix_of (Name params) (if isScript then ''script'' else ''pubkey'')
           = spec_prefix (Name params) isScript
       \<and> AddressFromHash160 L hash params isScript =
           DecodeAddress L
             (base58Encode L
                (spec_prefix (Name params) isScript @ hash
                 @ take 4 (sha256Sum256 L (sha256Sum256 L
                             (spec_prefix (Name params) isScript @ hash)))))
             params"
proof -
  have p: "prefix_of (Name params) (if isScript then ''script'' else ''pubkey'')
           = spec_prefix (Name params) isScript"
    using assms by (auto simp add: prefix_of_table spec_prefix_def)
  have "AddressFromHash160 L hash params isScript =
          DecodeAddress L
            (encodeHash L hash (prefix_of (Name params) (if isScript then ''script'' else ''pubkey'')))
            params"
    by (simp add: AddressFromHash160_def)
  with p show ?thesis
    by (simp add: encodeHash_eq)
qed

theorem AddressFromHash160_encoding_witness:
  "AddressFromHash160 stub_libs (replicate 20 0x11) MainNetParams True =
     DecodeAddress stub_libs
       (base58Encode stub_libs
          ([0x1C, 0xBD] @ replicate 20 0x11
           @ take 4 (sha256Sum256 stub_libs (sha256Sum256 stub_libs
                       ([0x1C, 0xBD] @ replicate 20 0x11)))))
       MainNetParams"
  using AddressFromHash160_encoding [of MainNetParams True stub_libs "replicate 20 0x11"]
  by (simp add: spec_prefix_def)

subsection \<open>Funding from caller-supplied UTXOs\<close>

lemma andThen_simps [simp]:
  "andThen (Inl e) f = Inl e"
  "andThen (Inr x) f = f x"
  by (simp_all add: andThen_def)

lemma andThen_eq_Inr: "andThen r f = Inr y \<longleftrightarrow> (\<exists>x. r = Inr x \<and> f x = Inr y)"
  by (cases r) simp_all

lemma fundZecTx_loop_inputs:
  "fundZecTx_loop L utxos i (spk, m, rv) = Inr (spk', m', rv') \<Longrightarrow>
     TxIns m' = TxIns m @ map (inputOf L) (funded L spk utxos)
   \<and> TxOuts m' = TxOuts m \<and> Version m' = Version m
   \<and> LockTime m' = LockTime m \<and> ExpiryHeight m' = ExpiryHeight m"
proof (induction utxos arbitrary: i spk m rv)
  case Nil
  then show ?case by simp
next
  case (Cons u us)
  from Cons.prems obtain s where s: "hexDecodeString L (ScriptPubKey u) = Some s"
    by (auto split: option.splits)
  show ?case
  proof (cases "spk \<noteq> [] \<and> spk \<noteq> s")
    case True
    with Cons.prems s have "fundZecTx_loop L us (Suc i) (spk, m, rv) = Inr (spk', m', rv')"
      by simp
    from Cons.IH [OF this] True s show ?thesis by simp
  next
    case False
    with Cons.prems s obtain h where h: "chainhashNewHashFromStr L (TxHash u) = Some h"
      by (auto split: option.splits)
    with Cons.prems s False
    have "fundZecTx_loop L us (Suc i)
            (if spk = [] then s else spk,
             AddTxIn m (NewTxIn (NewOutPoint h (Vout u)) []), rv[i := Amount u])
          = Inr (spk', m', rv')"
      by (auto split: if_splits)
    from Cons.IH [OF this] False s h show ?thesis
      by (auto simp add: AddTxIn_def inputOf_def)
  qed
qed

lemma fundZecTx_loop_values:
  "fundZecTx_loop L utxos i (spk, m, rv) = Inr (spk', m', rv') \<Longrightarrow>
   i + length utxos \<le> length rv \<Longrightarrow>
   \<forall>j. i \<le> j \<and> j < i + length utxos \<longrightarrow> rv ! j = 0 \<Longrightarrow>
     rv' = take i rv @ received L spk utxos @ drop (i + length utxos) rv
   \<and> length (received L spk utxos) = length utxos"
proof (induction utxos arbitrary: i spk m rv)
  case Nil
  then show ?case by simp
next
  case (Cons u us)
  from Cons.prems obtain s where s: "hexDecodeString L (ScriptPubKey u) = Some s"
    by (auto split: option.splits)
  have i: "i < length rv" "Suc i + length us \<le> length rv"
    using Cons.prems(2) by simp_all
  show ?case
  proof (cases "spk \<noteq> [] \<and> spk \<noteq> s")
    case True
    with Cons.prems s have run: "fundZecTx_loop L us (Suc i) (spk, m, rv) = Inr (spk', m', rv')"
      by simp
    have z: "\<forall>j. Suc i \<le> j \<and> j < Suc i + length us \<longrightarrow> rv ! j = 0"
      using Cons.prems(3) by simp
    have "rv ! i = 0" using Cons.prems(3) by simp
    then have "take (Suc i) rv = take i rv @ [0]"
      using i(1) by (simp add: take_Suc_conv_app_nth)
    with Cons.IH [OF run i(2) z] True s show ?thesis by simp
  next
    case False
    with Cons.prems s obtain h where h: "chainhashNewHashFromStr L (TxHash u) = Some h"
      by (auto split: option.splits)
    with Cons.prems s False
    have run: "fundZecTx_loop L us (Suc i)
            (if spk = [] then s else spk,
             AddTxIn m (NewTxIn (NewOutPoint h (Vout u)) []), rv[i := Amount u])
          = Inr (spk', m', rv')"
      by (auto split: if_splits)
    have z: "\<forall>j. Suc i \<le> j \<and> j < Suc i + length us \<longrightarrow> rv[i := Amount u] ! j = 0"
      using Cons.prems(3) by simp
    have l: "Suc i + length us \<le> length (rv[i := Amount u])"
      using i(2) by simp
    have t: "take (Suc i) (rv[i := Amount u]) = take i rv @ [Amount u]"
      using i(1) by (simp add: take_Suc_conv_app_nth)
    have d: "drop (Suc i + length us) (rv[i := Amount u]) = drop (Suc i + length us) rv"
      by simp
    from Cons.IH [OF run l z] False s show ?thesis
      unfolding t d by auto
  qed
qed

lemma funded_length: "length (funded L spk utxos) \<le> length utxos"
  by (induction utxos arbitrary: spk) (auto split: option.splits intro: le_SucI)

lemma funded_all:
  "length (funded L spk utxos) = length utxos \<Longrightarrow>
     funded L spk utxos = utxos \<and> received L spk utxos = map Amount utxos"
proof (induction utxos arbitrary: spk)
  case Nil
  then show ?case by simp
next
  case (Cons u us)
  show ?case
  proof (cases "hexDecodeString L (ScriptPubKey u)")
    case None
    with Cons.prems show ?thesis by simp
  next
    case (Some s)
    show ?thesis
    proof (cases "spk \<noteq> [] \<and> spk \<noteq> s")
      case True
      with Some Cons.prems have "length (funded L spk us) = Suc (length us)" by simp
      with funded_length [of L spk us] show ?thesis by simp
    next
      case False
      with Some Cons.prems have "length (funded L (if spk = [] then s else spk) us) = length us"
        by (simp split: if_splits)
      from Cons.IH [OF this] False Some show ?thesis by auto
    qed
  qed
qed

lemma fundZecTx_result:
  assumes "fundZecTx L fromAddr script c m utxos = Inr (rv, sub, m')"
  shows "TxIns m' = TxIns m @ map (inputOf L) (funded L [] utxos)"
    and "TxOuts m' = TxOuts m" and "Version m' = Version m"
    and "LockTime m' = LockTime m" and "ExpiryHeight m' = ExpiryHeight m"
    and "rv = received L [] utxos" and "length rv = length utxos"
    and "script = Some s \<Longrightarrow> sub = s"
proof -
  from assms obtain spk' rv' where
    run: "fundZecTx_loop L utxos 0 ([], m, replicate (length utxos) 0) = Inr (spk', m', rv')"
    and rv: "rv = rv'" and sub: "sub = (case script of Some s \<Rightarrow> s | None \<Rightarrow> spk')"
    by (auto simp add: fundZecTx_def andThen_eq_Inr split: option.splits)
  from fundZecTx_loop_inputs [OF run]
  show "TxIns m' = TxIns m @ map (inputOf L) (funded L [] utxos)"
    and "TxOuts m' = TxOuts m" and "Version m' = Version m"
    and "LockTime m' = LockTime m" and "ExpiryHeight m' = ExpiryHeight m"
    by simp_all
  from fundZecTx_loop_values [OF run]
  show "rv = received L [] utxos" and "length rv = length utxos"
    by (simp_all add: rv)
  show "script = Some s \<Longrightarrow> sub = s" using sub by simp
qed

lemma foldl_add_i64:
  fixes a :: i64
  shows "foldl (\<lambda>res val. res + val) a vals = a + sum_list vals"
  by (induction vals arbitrary: a) (simp_all add: add.assoc)

lemma sum_i64_sum_list: "sum_i64 vals = sum_list vals"
  by (simp add: sum_i64_def foldl_add_i64)

lemma CalcSignatureHash_Inr_index:
  "CalcSignatureHash H sub ht m idx amt = Inr h \<Longrightarrow> idx < int (length (TxIns m))"
  by (auto simp add: CalcSignatureHash_def sigHashPreimage_def
      split: sum.splits option.splits if_splits)

lemma calcHashes_result:
  "calcHashes L sub m rv idxs hs = Inr hs' \<Longrightarrow>
     length hs' = length hs + length idxs \<and> take (length hs) hs' = hs
   \<and> (\<forall>k < length idxs.
         idxs ! k < length rv \<and> idxs ! k < length (TxIns m)
       \<and> CalcSignatureHash (hashLibs L) sub SigHashAll m (int (idxs ! k)) (rv ! (idxs ! k))
           = Inr (hs' ! (length hs + k)))"
proof (induction idxs arbitrary: hs)
  case Nil
  then show ?case by simp
next
  case (Cons i idxs)
  from Cons.prems have i: "i < length rv"
    by (auto split: if_splits)
  with Cons.prems obtain h where
    h: "CalcSignatureHash (hashLibs L) sub SigHashAll m (int i) (rv ! i) = Inr h"
    and run: "calcHashes L sub m rv idxs (hs @ [h]) = Inr hs'"
    by (auto split: sum.splits)
  from Cons.IH [OF run] have
    len: "length hs' = length hs + 1 + length idxs" and
    tk: "take (length hs + 1) hs' = hs @ [h]" and
    rest: "\<forall>k < length idxs.
         idxs ! k < length rv \<and> idxs ! k < length (TxIns m)
       \<and> CalcSignatureHash (hashLibs L) sub SigHashAll m (int (idxs ! k)) (rv ! (idxs ! k))
           = Inr (hs' ! (length hs + 1 + k))"
    by simp_all
  from tk have tk0: "take (length hs) hs' = hs"
  proof -
    have "take (length hs) hs' = take (length hs) (take (length hs + 1) hs')"
      by simp
    also have "\<dots> = hs" by (subst tk) simp
    finally show ?thesis .
  qed
  from tk len have hd: "hs' ! length hs = h"
    by (metis nth_take lessI Suc_eq_plus1 nth_append_length)
  from CalcSignatureHash_Inr_index [OF h] have ii: "i < length (TxIns m)" by simp
  show ?case
  proof (intro conjI allI impI)
    show "length hs' = length hs + length (i # idxs)" using len by simp
    show "take (length hs) hs' = hs" by (rule tk0)
  next
    fix k assume k: "k < length (i # idxs)"
    show "(i # idxs) ! k < length rv"
      using i rest k by (cases k) auto
    show "(i # idxs) ! k < length (TxIns m)"
      using ii rest k by (cases k) auto
    show "CalcSignatureHash (hashLibs L) sub SigHashAll m (int ((i # idxs) ! k)) (rv ! ((i # idxs) ! k))
           = Inr (hs' ! (length hs + k))"
      using h hd rest k by (cases k) auto
  qed
qed

lemma sint_sub_small:
  fixes x :: i64
  assumes "10600 \<le> sint x"
  shows "sint (x - 10000) = sint x - 10000"
proof -
  have b: "sint x < 2 ^ 63" using sint_lt [of x] by simp
  have "sint (x - 10000) = signed_take_bit 63 (sint x - sint (10000 :: 64 word))"
    by (simp add: sint_word_ariths)
  also have "sint (10000 :: 64 word) = 10000" by simp
  also have "signed_take_bit 63 (sint x - 10000) = sint x - 10000"
    using assms b by (intro signed_take_bit_int_eq_self) simp_all
  finally show ?thesis .
qed

lemma value_minus_fee_positive:
  fixes x :: i64
  assumes "\<not> x <s 10600"
  shows "0 <s x - 10000"
proof -
  from assms have "10600 \<le> sint x" by (simp add: word_sless_alt)
  from sint_sub_small [OF this] this show ?thesis by (simp add: word_sless_alt)
qed

lemma sint_remainder:
  fixes a x :: i64
  assumes "10600 \<le> sint x" "sint x \<le> sint a"
  shows "sint (a - (x - 10000)) = sint a - sint x + 10000"
proof -
  have b: "sint a < 2 ^ 63" using sint_lt [of a] by simp
  have "sint (a - (x - 10000)) = signed_take_bit 63 (sint a - sint (x - 10000))"
    by (simp add: sint_word_ariths)
  also have "sint (x - 10000) = sint x - 10000" by (rule sint_sub_small [OF assms(1)])
  also have "signed_take_bit 63 (sint a - (sint x - 10000)) = sint a - (sint x - 10000)"
    using assms b by (intro signed_take_bit_int_eq_self) simp_all
  finally show ?thesis by simp
qed

lemma remainder_at_least_fee:
  fixes a x :: i64
  assumes "\<not> x <s 10600" "\<not> a <s x"
  shows "10000 \<le>s a - (x - 10000)"
proof -
  from assms have "10600 \<le> sint x" "sint x \<le> sint a" by (simp_all add: word_sless_alt)
  from sint_remainder [OF this] this show ?thesis by (simp add: word_sle_eq)
qed

lemma NewMsgTx_fields [simp]:
  "TxIns (NewMsgTx v) = []" "TxOuts (NewMsgTx v) = []" "Version (NewMsgTx v) = v"
  "LockTime (NewMsgTx v) = 0" "ExpiryHeight (NewMsgTx v) = 6000000"
  by (simp_all add: NewMsgTx_def ZCashExpiryHeight_def)

lemma NewTxBuilder_fields [simp]:
  "version (NewTxBuilder c) = 4" "fee (NewTxBuilder c) = 10000"
  "dust (NewTxBuilder c) = 600" "b_client (NewTxBuilder c) = c"
  by (simp_all add: NewTxBuilder_def)

lemma Build_fund_result:
  assumes "Build_fund L (NewTxBuilder c) fromAddr contract v mwUTXOs scriptUTXOs
             = Inr (rv, pubKeyScript, amt, sent1, m2)"
  shows "amt = sum_i64 rv \<and> \<not> amt <s v + 10000 \<and> TxOuts m2 = [] \<and>
    Version m2 = 4 \<and> ExpiryHeight m2 = 6000000 \<and>
    TxIns m2 = map (inputOf L)
           (funded L [] mwUTXOs @ (case contract of None \<Rightarrow> [] | Some ct \<Rightarrow> funded L [] scriptUTXOs)) \<and>
    rv = received L [] mwUTXOs
               @ (case contract of None \<Rightarrow> [] | Some ct \<Rightarrow> received L [] scriptUTXOs) \<and>
    length rv = length mwUTXOs
               + (case contract of None \<Rightarrow> 0 | Some ct \<Rightarrow> length scriptUTXOs)"
proof (cases contract)
  case None
  from assms [unfolded Build_fund_def NewTxBuilder_fields] None obtain m1 where
    f1: "fundZecTx L fromAddr None c (NewMsgTx 4) mwUTXOs = Inr (rv, pubKeyScript, m1)"
    and e: "amt = sum_i64 rv" "m2 = m1" "\<not> amt <s v + 10000"
    by (auto simp add: andThen_eq_Inr split: if_splits)
  note r1 = fundZecTx_result [OF f1]
  from r1 e None show "amt = sum_i64 rv \<and> \<not> amt <s v + 10000 \<and> TxOuts m2 = [] \<and>
    Version m2 = 4 \<and> ExpiryHeight m2 = 6000000 \<and>
    TxIns m2 = map (inputOf L)
           (funded L [] mwUTXOs @ (case contract of None \<Rightarrow> [] | Some ct \<Rightarrow> funded L [] scriptUTXOs)) \<and>
    rv = received L [] mwUTXOs
               @ (case contract of None \<Rightarrow> [] | Some ct \<Rightarrow> received L [] scriptUTXOs) \<and>
    length rv = length mwUTXOs
               + (case contract of None \<Rightarrow> 0 | Some ct \<Rightarrow> length scriptUTXOs)"
    by simp
next
  case (Some ct)
  from assms [unfolded Build_fund_def NewTxBuilder_fields] Some obtain rv1 m1 rv2 sub2 where
    f1: "fundZecTx L fromAddr None c (NewMsgTx 4) mwUTXOs = Inr (rv1, pubKeyScript, m1)"
    and f2: "fundZecTx L fromAddr (Some ct) c m1 scriptUTXOs = Inr (rv2, sub2, m2)"
    and e: "rv = rv1 @ rv2" "amt = sum_i64 rv1 + sum_i64 rv2" "\<not> amt <s v + 10000"
    by (auto simp add: andThen_eq_Inr split: if_splits)
  note r1 = fundZecTx_result [OF f1]
  note r2 = fundZecTx_result [OF f2]
  from r1 r2 e Some show "amt = sum_i64 rv \<and> \<not> amt <s v + 10000 \<and> TxOuts m2 = [] \<and>
    Version m2 = 4 \<and> ExpiryHeight m2 = 6000000 \<and>
    TxIns m2 = map (inputOf L)
           (funded L [] mwUTXOs @ (case contract of None \<Rightarrow> [] | Some ct \<Rightarrow> funded L [] scriptUTXOs)) \<and>
    rv = received L [] mwUTXOs
               @ (case contract of None \<Rightarrow> [] | Some ct \<Rightarrow> received L [] scriptUTXOs) \<and>
    length rv = length mwUTXOs
               + (case contract of None \<Rightarrow> 0 | Some ct \<Rightarrow> length scriptUTXOs)"
    by (simp add: sum_i64_sum_list)
qed

lemma Build_outputs_result:
  assumes "Build_outputs L (NewTxBuilder c) toAddr fromAddr v amt sent1 m2 = Inr (sent2, m4)"
      and "0 <s v"
  shows "\<exists>s1. PayToAddrScript L toAddr = Inr s1
          \<and> TxOuts m4 = TxOuts m2 @ NewTxOut v s1 #
            (if 10600 <s amt - v
             then [NewTxOut (amt - v - 10000) (projr (PayToAddrScript L fromAddr))] else [])"
    and "TxIns m4 = TxIns m2" and "Version m4 = Version m2"
    and "ExpiryHeight m4 = ExpiryHeight m2" and "LockTime m4 = LockTime m2"
proof -
  from assms [unfolded Build_outputs_def NewTxBuilder_fields]
  obtain s1 where s1: "PayToAddrScript L toAddr = Inr s1"
    and rest: "(if 10600 <s amt - v
          then andThen (PayToAddrScript L fromAddr)
                 (\<lambda>P2PKHScript.
                    Inr (v, AddTxOut (AddTxOut m2 (NewTxOut v s1)) (NewTxOut (amt - v - 10000) P2PKHScript)))
          else Inr (v, AddTxOut m2 (NewTxOut v s1))) = Inr (sent2, m4)"
    by (auto simp add: andThen_eq_Inr)
  have m4: "m4 = m2\<lparr>TxOuts := TxOuts m2 @ NewTxOut v s1 #
            (if 10600 <s amt - v
             then [NewTxOut (amt - v - 10000) (projr (PayToAddrScript L fromAddr))] else [])\<rparr>"
  proof (cases "10600 <s amt - v")
    case True
    with rest obtain s2 where "PayToAddrScript L fromAddr = Inr s2"
      "m4 = AddTxOut (AddTxOut m2 (NewTxOut v s1)) (NewTxOut (amt - v - 10000) s2)"
      by (auto simp add: andThen_eq_Inr)
    with True show ?thesis by (auto simp add: AddTxOut_def)
  next
    case False
    with rest show ?thesis by (auto simp add: AddTxOut_def)
  qed
  from s1 m4 show "\<exists>s1. PayToAddrScript L toAddr = Inr s1
          \<and> TxOuts m4 = TxOuts m2 @ NewTxOut v s1 #
            (if 10600 <s amt - v
             then [NewTxOut (amt - v - 10000) (projr (PayToAddrScript L fromAddr))] else [])"
    by simp
  from m4 show "TxIns m4 = TxIns m2" and "Version m4 = Version m2"
    and "ExpiryHeight m4 = ExpiryHeight m2" and "LockTime m4 = LockTime m2"
    by simp_all
qed

lemma Build_run_success:
  assumes "Build_run L (NewTxBuilder c) pubKey to contract value0 mwUTXOs scriptUTXOs = Inr (t, rv)"
  obtains fromAddr toAddr pubKeyScript amt sent1 m2 sent2 where
    "\<not> value0 <s 10600"
    "Build_fund L (NewTxBuilder c) fromAddr contract (value0 - 10000) mwUTXOs scriptUTXOs
       = Inr (rv, pubKeyScript, amt, sent1, m2)"
    "Build_outputs L (NewTxBuilder c) toAddr fromAddr (value0 - 10000) amt sent1 m2
       = Inr (sent2, t_msgTx t)"
    "Build_hashes L pubKeyScript contract (t_msgTx t) rv (length mwUTXOs) (length scriptUTXOs)
       = Inr (t_hashes t)"
    "t_mwIns t = length mwUTXOs" "t_contract t = contract" "t_client t = c"
    "t_publicKey t = pubKey"
  using assms [unfolded Build_run_def NewTxBuilder_fields Let_def]
  by (auto simp add: andThen_eq_Inr split: if_splits)

lemma Build_hashes_indices:
  assumes "Build_hashes L pubKeyScript contract m rv n1 n2 = Inr hs"
  shows "\<forall>i < n1 + n2. i < length rv \<and> i < length (TxIns m)"
proof -
  from assms obtain h1 where
    a: "calcHashes L pubKeyScript m rv [0 ..< n1] [] = Inr h1" and
    b: "calcHashes L (case contract of None \<Rightarrow> [] | Some c \<Rightarrow> c) m rv [n1 ..< n1 + n2] h1 = Inr hs"
    by (auto simp add: Build_hashes_def andThen_eq_Inr)
  from calcHashes_result [OF a] have a': "\<forall>i < n1. i < length rv \<and> i < length (TxIns m)"
    by auto
  from calcHashes_result [OF b] have
    "\<forall>k < n2. [n1 ..< n1 + n2] ! k < length rv \<and> [n1 ..< n1 + n2] ! k < length (TxIns m)"
    by auto
  then have b': "\<forall>k < n2. n1 + k < length rv \<and> n1 + k < length (TxIns m)"
    by simp
  show ?thesis
  proof (intro allI impI)
    fix i assume i: "i < n1 + n2"
    show "i < length rv \<and> i < length (TxIns m)"
    proof (cases "i < n1")
      case True
      with a' show ?thesis by simp
    next
      case False
      with i have "i - n1 < n2" "n1 + (i - n1) = i" by simp_all
      with b' show ?thesis by metis
    qed
  qed
qed

lemma Build_run_inputs:
  assumes "Build_run L (NewTxBuilder c) pubKey to contract value0 mwUTXOs scriptUTXOs = Inr (t, rv)"
  shows "TxIns (t_msgTx t) = map (inputOf L) (mwUTXOs @ scriptUTXOs)
       \<and> rv = map Amount (mwUTXOs @ scriptUTXOs)"
proof -
  from assms obtain fromAddr toAddr pubKeyScript amt sent1 m2 sent2 where
    v: "\<not> value0 <s 10600" and
    bf: "Build_fund L (NewTxBuilder c) fromAddr contract (value0 - 10000) mwUTXOs scriptUTXOs
       = Inr (rv, pubKeyScript, amt, sent1, m2)" and
    bo: "Build_outputs L (NewTxBuilder c) toAddr fromAddr (value0 - 10000) amt sent1 m2
       = Inr (sent2, t_msgTx t)" and
    bh: "Build_hashes L pubKeyScript contract (t_msgTx t) rv (length mwUTXOs) (length scriptUTXOs)
       = Inr (t_hashes t)"
    by (rule Build_run_success)
  let ?n1 = "length mwUTXOs" and ?n2 = "length scriptUTXOs"
  from Build_fund_result [OF bf] have
    ins2: "TxIns m2 = map (inputOf L)
           (funded L [] mwUTXOs @ (case contract of None \<Rightarrow> [] | Some ct \<Rightarrow> funded L [] scriptUTXOs))"
    and rv: "rv = received L [] mwUTXOs
               @ (case contract of None \<Rightarrow> [] | Some ct \<Rightarrow> received L [] scriptUTXOs)"
    and len: "length rv = ?n1 + (case contract of None \<Rightarrow> 0 | Some ct \<Rightarrow> ?n2)"
    by blast+
  from Build_outputs_result(2) [OF bo value_minus_fee_positive [OF v]]
  have ins: "TxIns (t_msgTx t) = TxIns m2" .
  from Build_hashes_indices [OF bh]
  have idx: "\<forall>i < ?n1 + ?n2. i < length rv \<and> i < length (TxIns (t_msgTx t))" .
  have l1: "length (funded L [] mwUTXOs) \<le> ?n1" and l2: "length (funded L [] scriptUTXOs) \<le> ?n2"
    by (rule funded_length)+
  show ?thesis
  proof (cases contract)
    case None
    have n2: "?n2 = 0"
    proof (rule ccontr)
      assume "?n2 \<noteq> 0"
      then have "?n1 < ?n1 + ?n2" by simp
      with idx have "?n1 < length rv" by blast
      with len None show False by simp
    qed
    have "?n1 \<le> length (funded L [] mwUTXOs)"
    proof (cases "?n1 = 0")
      case True
      then show ?thesis by simp
    next
      case False
      then have "?n1 - 1 < ?n1 + ?n2" by (cases mwUTXOs) simp_all
      with idx have "?n1 - 1 < length (TxIns (t_msgTx t))" by blast
      with ins ins2 None False show ?thesis by (cases mwUTXOs) simp_all
    qed
    with l1 have "length (funded L [] mwUTXOs) = ?n1" by simp
    from funded_all [OF this] ins ins2 rv None n2 show ?thesis by simp
  next
    case (Some ct)
    have "?n1 + ?n2 \<le> length (funded L [] mwUTXOs) + length (funded L [] scriptUTXOs)"
    proof (cases "?n1 + ?n2 = 0")
      case True
      then show ?thesis by simp
    next
      case False
      then have "?n1 + ?n2 - 1 < ?n1 + ?n2" by arith
      with idx have "?n1 + ?n2 - 1 < length (TxIns (t_msgTx t))" by blast
      with ins ins2 Some False show ?thesis by simp
    qed
    with l1 l2 have "length (funded L [] mwUTXOs) = ?n1" "length (funded L [] scriptUTXOs) = ?n2"
      by simp_all
    from funded_all [OF this(1)] funded_all [OF this(2)] ins ins2 rv Some show ?thesis by simp
  qed
qed

lemma hex_decode_76a9: "hex_decode ''76a9'' = Some [0x76, 0xA9]"
  by simp

lemma stub_libs_simps:
  "hashLibs stub_libs = stub_hash_libs"
  "hexDecodeString stub_libs = hex_decode"
  "SerializeUncompressed stub_libs (PublicKey x y) = [4, of_int x, of_int y]"
  "btcutilHash160 stub_libs b = take 20 (b @ replicate 20 0)"
  "sha256Sum256 stub_libs b = take 32 (b @ replicate 32 0)"
  "base58Encode stub_libs = map (\<lambda>w. char_of (unat w))"
  "zecPayToAddrScript stub_libs a = Some (
         if isScriptHash a then [0xA9, 0x14] @ hash160 a @ [0x87]
         else [0x76, 0xA9, 0x14] @ hash160 a @ [0x88, 0xAC])"
  "chainhashNewHashFromStr stub_libs s = (
         if length s > 64 then None
         else map_option (\<lambda>b. take 32 (rev b @ replicate 32 0))
                (hex_decode (if odd (length s) then CHR ''0'' # s else s)))"
  by (simp_all add: stub_libs_def)

lemma stub_decode:
  "length s = 26 \<Longrightarrow> zecDecodeAddress stub_libs s net \<noteq> None"
  by (simp add: stub_libs_def)

lemma test_from: "\<exists>a. PublicKeyToAddress stub_libs test_client [4, 1, 2] = Inr a"
  by (simp add: PublicKeyToAddress_def AddressFromHash160_def DecodeAddress_def
      encodeHash_eq stub_libs_simps test_client_def copy20_def prefix_of_table stub_libs_def)

lemma test_toAddr: "\<exists>a. DecodeAddress stub_libs test_to TestNet3Params = Inr a"
  by (simp add: DecodeAddress_def test_to_def stub_libs_def)

lemma stub_CalcSignatureHash:
  assumes "0 \<le> idx" "idx < int (length (TxIns m))"
  shows "\<exists>h. CalcSignatureHash stub_hash_libs sub SigHashAll m idx amt = Inr h"
proof -
  have "\<exists>pre. sigHashPreimage stub_hash_libs sub SigHashAll m idx amt = Inr pre"
    using assms
    by (simp add: sigHashPreimage_def stub_hash_libs_def hashOutputsPart_def
        inputPart_def SigHashAll_def sigHashMask_def SigHashSingle_def SigHashNone_def Let_def)
  then show ?thesis
    by (auto simp add: CalcSignatureHash_def sigHashKey_cases stub_blake2bHash)
qed

lemma test_fund:
  "fundZecTx stub_libs a None test_client (NewMsgTx 4) [u\<lparr>ScriptPubKey := ''76a9'', TxHash := ''a1''\<rparr>]
     = Inr ([Amount u], [0x76, 0xA9],
            AddTxIn (NewMsgTx 4) (NewTxIn (NewOutPoint (161 # replicate 31 0) (Vout u)) []))"
  by (simp add: fundZecTx_def stub_libs_simps)

lemma test_Build_run:
  fixes u :: UTXO
  assumes v: "\<not> value0 <s 10600" and a: "\<not> Amount u <s value0"
      and u: "ScriptPubKey u = ''76a9''" "TxHash u = ''a1''"
  shows "\<exists>t. Build_run stub_libs (NewTxBuilder test_client) test_pubKey test_to None value0 [u] []
              = Inr (t, [Amount u])
           \<and> map Value (TxOuts (t_msgTx t)) =
               (value0 - 10000) #
               (if 10600 <s Amount u - (value0 - 10000)
                then [Amount u - (value0 - 10000) - 10000] else [])"
proof -
  have ser: "SerializePublicKey stub_libs test_client test_pubKey = Inr [4, 1, 2]"
    by (simp add: SerializePublicKey_def test_client_def test_pubKey_def stub_libs_simps)
  obtain fromAddr where fromAddr: "PublicKeyToAddress stub_libs test_client [4, 1, 2] = Inr fromAddr"
    using test_from by blast
  obtain toAddr where toAddr: "DecodeAddress stub_libs test_to TestNet3Params = Inr toAddr"
    using test_toAddr by blast
  have np: "NetworkParams test_client = TestNet3Params"
    by (simp add: test_client_def)
  define m1 where "m1 = AddTxIn (NewMsgTx 4) (NewTxIn (NewOutPoint (161 # replicate 31 0) (Vout u)) [])"
  have "u = u\<lparr>ScriptPubKey := ''76a9'', TxHash := ''a1''\<rparr>"
    using u by simp
  then have "fundZecTx stub_libs fromAddr None test_client (NewMsgTx 4) [u]
               = Inr ([Amount u], [0x76, 0xA9], m1)"
    unfolding m1_def using test_fund [of fromAddr u] by simp
  moreover have "\<not> Amount u <s value0 - 10000 + 10000"
    using a by simp
  ultimately have fund:
    "Build_fund stub_libs (NewTxBuilder test_client) fromAddr None (value0 - 10000) [u] []
       = Inr ([Amount u], [0x76, 0xA9], Amount u, 0, m1)"
    by (simp add: Build_fund_def sum_i64_sum_list)
  obtain s1 where s1: "PayToAddrScript stub_libs toAddr = Inr s1"
    by (simp add: PayToAddrScript_def stub_libs_simps)
  obtain s2 where s2: "PayToAddrScript stub_libs fromAddr = Inr s2"
    by (simp add: PayToAddrScript_def stub_libs_simps)
  define m4 where "m4 = m1\<lparr>TxOuts := NewTxOut (value0 - 10000) s1 #
               (if 10600 <s Amount u - (value0 - 10000)
                then [NewTxOut (Amount u - (value0 - 10000) - 10000) s2] else [])\<rparr>"
  have m1o: "TxOuts m1 = []" by (simp add: m1_def AddTxIn_def)
  have outs:
    "Build_outputs stub_libs (NewTxBuilder test_client) toAddr fromAddr (value0 - 10000)
       (Amount u) 0 m1 = Inr (value0 - 10000, m4)"
    using value_minus_fee_positive [OF v]
    by (simp add: Build_outputs_def s1 s2 AddTxOut_def m4_def m1o)
  have "length (TxIns m4) = 1" by (simp add: m4_def m1_def AddTxIn_def)
  then obtain h where
    h: "CalcSignatureHash stub_hash_libs [0x76, 0xA9] SigHashAll m4 0 (Amount u) = Inr h"
    using stub_CalcSignatureHash [of 0 m4] by auto
  then have hashes:
    "Build_hashes stub_libs [0x76, 0xA9] None m4 [Amount u] (Suc 0) 0 = Inr [h]"
    by (simp add: Build_hashes_def stub_libs_simps)
  let ?t = "\<lparr>t_sent = value0 - 10000, t_msgTx = m4, t_hashes = [h],
             t_client = test_client, t_contract = None,
             t_publicKey = test_pubKey, t_mwIns = Suc 0\<rparr>"
  have r1: "Build_run stub_libs (NewTxBuilder test_client) test_pubKey test_to None value0 [u] []
              = Inr (?t, [Amount u])"
    using v by (simp add: Build_run_def ser fromAddr toAddr np fund outs hashes)
  have r2: "map Value (TxOuts (t_msgTx ?t)) =
               (value0 - 10000) #
               (if 10600 <s Amount u - (value0 - 10000)
                then [Amount u - (value0 - 10000) - 10000] else [])"
    by (simp add: m4_def NewTxOut_def)
  show ?thesis
    by (rule exI [of _ ?t], rule conjI [OF r1 r2])
qed

subsection \<open>The fee of a built transaction\<close>

text \<open>
  Claim C2, as amended. For every successful \<open>Build\<close> of the builder with
  caller-supplied UTXOs, the amounts the digests commit to are the amounts of the UTXOs
  the inputs spend, and the sum of these amounts minus the sum of the output values is
  10000 when the change output is emitted (the remainder after the destination output
  exceeds fee plus dust, 10600), and the whole remainder otherwise; in either case it
  lies between 10000 and 10600.
\<close>

theorem Build_fee_paid:
  assumes "Build_run L (NewTxBuilder c) pubKey to contract value0 mwUTXOs scriptUTXOs
             = Inr (t, recvVals)"
  shows "recvVals = map Amount (mwUTXOs @ scriptUTXOs)
       \<and> TxIns (t_msgTx t) = map (inputOf L) (mwUTXOs @ scriptUTXOs)
       \<and> fee_paid (t, recvVals) =
           (if 10600 <s sum_i64 recvVals - (value0 - 10000) then 10000
            else sum_i64 recvVals - (value0 - 10000))
       \<and> length (TxOuts (t_msgTx t)) =
           (if 10600 <s sum_i64 recvVals - (value0 - 10000) then 2 else 1)
       \<and> 10000 \<le>s fee_paid (t, recvVals) \<and> fee_paid (t, recvVals) \<le>s 10600"
proof -
  from assms obtain fromAddr toAddr pubKeyScript amt sent1 m2 sent2 where
    v: "\<not> value0 <s 10600" and
    bf: "Build_fund L (NewTxBuilder c) fromAddr contract (value0 - 10000) mwUTXOs scriptUTXOs
       = Inr (recvVals, pubKeyScript, amt, sent1, m2)" and
    bo: "Build_outputs L (NewTxBuilder c) toAddr fromAddr (value0 - 10000) amt sent1 m2
       = Inr (sent2, t_msgTx t)"
    by (rule Build_run_success)
  let ?rem = "sum_i64 recvVals - (value0 - 10000)"
  from Build_fund_result [OF bf] have
    amt: "amt = sum_i64 recvVals" and cover: "\<not> amt <s value0 - 10000 + 10000"
    and o2: "TxOuts m2 = []"
    by blast+
  from Build_outputs_result(1) [OF bo value_minus_fee_positive [OF v]] o2 amt
  obtain s1 where outs: "TxOuts (t_msgTx t) = NewTxOut (value0 - 10000) s1 #
            (if 10600 <s ?rem
             then [NewTxOut (?rem - 10000) (projr (PayToAddrScript L fromAddr))] else [])"
    by auto
  have paid: "fee_paid (t, recvVals) = (if 10600 <s ?rem then 10000 else ?rem)"
    by (simp add: fee_paid_def outs sum_i64_sum_list NewTxOut_def)
  have len: "length (TxOuts (t_msgTx t)) = (if 10600 <s ?rem then 2 else 1)"
    by (simp add: outs)
  from cover amt have "\<not> sum_i64 recvVals <s value0" by simp
  from remainder_at_least_fee [OF v this] have lo: "10000 \<le>s ?rem" .
  have b1: "10000 \<le>s fee_paid (t, recvVals)"
    using lo by (simp add: paid)
  have b2: "fee_paid (t, recvVals) \<le>s 10600"
    by (simp add: paid word_sle_eq word_sless_alt)
  from Build_run_inputs [OF assms] paid len b1 b2 show ?thesis by blast
qed

theorem Build_fee_paid_witness:
  "\<not> isl (Build_run stub_libs (NewTxBuilder test_client) test_pubKey test_to None 20000 [utxo_a2] [])
   \<and> fee_paid (projr (Build_run stub_libs (NewTxBuilder test_client) test_pubKey test_to None 20000 [utxo_a2] []))
       = 10000"
proof -
  have "\<exists>t. Build_run stub_libs (NewTxBuilder test_client) test_pubKey test_to None 20000 [utxo_a2] []
              = Inr (t, [Amount utxo_a2])"
    using test_Build_run [of 20000 utxo_a2]
    by (auto simp add: utxo_a2_def word_sless_alt)
  then obtain t where t: "Build_run stub_libs (NewTxBuilder test_client) test_pubKey test_to None 20000 [utxo_a2] []
              = Inr (t, [Amount utxo_a2])" by blast
  from Build_fee_paid [OF t] have "fee_paid (t, [Amount utxo_a2]) = 10000"
    by (simp add: utxo_a2_def word_sless_alt sum_i64_sum_list)
  with t show ?thesis by simp
qed

text \<open>With one UTXO of 20300 and the value 20000 no change output is emitted and the
  transaction pays 10300.\<close>

theorem Build_fee_not_always_fixed:
  "\<not> isl (Build_run stub_libs (NewTxBuilder test_client) test_pubKey test_to None 20000 [utxo_a1] [])
   \<and> fee_paid (projr (Build_run stub_libs (NewTxBuilder test_client) test_pubKey test_to None 20000 [utxo_a1] []))
       = 10300"
proof -
  have "\<exists>t. Build_run stub_libs (NewTxBuilder test_client) test_pubKey test_to None 20000 [utxo_a1] []
              = Inr (t, [Amount utxo_a1])
           \<and> map Value (TxOuts (t_msgTx t)) = [10000]"
    using test_Build_run [of 20000 utxo_a1]
    by (simp add: utxo_a1_def word_sless_alt)
  then obtain t :: transaction where t: "Build_run stub_libs (NewTxBuilder test_client) test_pubKey test_to None 20000 [utxo_a1] []
              = Inr (t, [Amount utxo_a1])" "map Value (TxOuts (t_msgTx t)) = [10000]" by auto
  then show ?thesis
    by (simp add: fee_paid_def utxo_a1_def sum_i64_sum_list)
qed

subsection \<open>Amounts and input indices\<close>

lemma Build_hashes_digests:
  assumes "Build_hashes L pubKeyScript contract m rv n1 n2 = Inr hs"
  shows "length hs = n1 + n2"
    and "\<forall>i < n1 + n2.
           CalcSignatureHash (hashLibs L)
             (if i < n1 then pubKeyScript else (case contract of None \<Rightarrow> [] | Some ct \<Rightarrow> ct))
             SigHashAll m (int i) (rv ! i) = Inr (hs ! i)"
proof -
  from assms obtain h1 where
    a: "calcHashes L pubKeyScript m rv [0 ..< n1] [] = Inr h1" and
    b: "calcHashes L (case contract of None \<Rightarrow> [] | Some c \<Rightarrow> c) m rv [n1 ..< n1 + n2] h1 = Inr hs"
    by (auto simp add: Build_hashes_def andThen_eq_Inr)
  from calcHashes_result [OF a] have
    l1: "length h1 = n1" and
    a': "\<forall>k < n1. CalcSignatureHash (hashLibs L) pubKeyScript SigHashAll m (int k) (rv ! k)
            = Inr (h1 ! k)"
    by auto
  from calcHashes_result [OF b] l1 have
    l2: "length hs = n1 + n2" and tk: "take n1 hs = h1" and
    b': "\<forall>k < n2. CalcSignatureHash (hashLibs L) (case contract of None \<Rightarrow> [] | Some c \<Rightarrow> c)
            SigHashAll m (int (n1 + k)) (rv ! (n1 + k)) = Inr (hs ! (n1 + k))"
    by auto
  show "length hs = n1 + n2" by (rule l2)
  show "\<forall>i < n1 + n2.
           CalcSignatureHash (hashLibs L)
             (if i < n1 then pubKeyScript else (case contract of None \<Rightarrow> [] | Some ct \<Rightarrow> ct))
             SigHashAll m (int i) (rv ! i) = Inr (hs ! i)"
  proof (intro allI impI)
    fix i assume i: "i < n1 + n2"
    show "CalcSignatureHash (hashLibs L)
             (if i < n1 then pubKeyScript else (case contract of None \<Rightarrow> [] | Some ct \<Rightarrow> ct))
             SigHashAll m (int i) (rv ! i) = Inr (hs ! i)"
    proof (cases "i < n1")
      case True
      then have "h1 ! i = hs ! i" using tk nth_take [of i n1 hs] by simp
      with a' True show ?thesis by simp
    next
      case False
      with i have k: "i - n1 < n2" and e: "n1 + (i - n1) = i" by simp_all
      from b' [rule_format, OF k] False show ?thesis by (simp add: e)
    qed
  qed
qed

lemma Build_hashes_fails_on_skip:
  assumes "length (TxIns m) < n1 + n2"
  shows "isl (Build_hashes L pubKeyScript contract m rv n1 n2)"
proof (cases "Build_hashes L pubKeyScript contract m rv n1 n2")
  case (Inl e)
  then show ?thesis by simp
next
  case (Inr hs)
  from Build_hashes_indices [OF Inr] have "\<forall>i < n1 + n2. i < length (TxIns m)" by simp
  moreover from assms have "length (TxIns m) < n1 + n2" .
  ultimately have "length (TxIns m) < length (TxIns m)" by blast
  then show ?thesis by simp
qed





subsection \<open>Injecting signatures\<close>

lemma setSignatureScript_fields [simp]:
  "t_contract (setSignatureScript t i s) = t_contract t"
  "t_mwIns (setSignatureScript t i s) = t_mwIns t"
  "t_hashes (setSignatureScript t i s) = t_hashes t"
  "t_client (setSignatureScript t i s) = t_client t"
  "t_publicKey (setSignatureScript t i s) = t_publicKey t"
  "t_sent (setSignatureScript t i s) = t_sent t"
  "length (TxIns (t_msgTx (setSignatureScript t i s))) = length (TxIns (t_msgTx t))"
  "TxOuts (t_msgTx (setSignatureScript t i s)) = TxOuts (t_msgTx t)"
  by (simp_all add: setSignatureScript_def)

lemma setSignatureScript_nth:
  "j < length (TxIns (t_msgTx t)) \<Longrightarrow>
   TxIns (t_msgTx (setSignatureScript t i s)) ! j =
     (if j = i then (TxIns (t_msgTx t) ! j)\<lparr>SignatureScript := s\<rparr> else TxIns (t_msgTx t) ! j)"
  by (simp add: setSignatureScript_def nth_list_update)

lemma sigScriptItems_set [simp]:
  "sigScriptItems L (setSignatureScript t i s) spk j sig = sigScriptItems L t spk j sig"
  by (simp add: sigScriptItems_def split: option.splits)

lemma InjectSigs_loop_ok:
  assumes "i + length sigs \<le> length (TxIns (t_msgTx t))"
      and "\<forall>k < length sigs. scriptBuilderScript L (sigScriptItems L t spk (i + k) (sigs ! k)) \<noteq> None"
  shows "snd (InjectSigs_loop L spk t i sigs) = None
       \<and> length (TxIns (t_msgTx (fst (InjectSigs_loop L spk t i sigs)))) = length (TxIns (t_msgTx t))
       \<and> (\<forall>j < length (TxIns (t_msgTx t)).
            TxIns (t_msgTx (fst (InjectSigs_loop L spk t i sigs))) ! j =
              (if i \<le> j \<and> j < i + length sigs
               then (TxIns (t_msgTx t) ! j)\<lparr>SignatureScript :=
                      the (scriptBuilderScript L (sigScriptItems L t spk j (sigs ! (j - i))))\<rparr>
               else TxIns (t_msgTx t) ! j))"
  using assms
proof (induction sigs arbitrary: t i)
  case Nil
  then show ?case by auto
next
  case (Cons sig sigs)
  from Cons.prems(2) [rule_format, of 0]
  obtain s where s: "scriptBuilderScript L (sigScriptItems L t spk i sig) = Some s"
    by auto
  let ?t = "setSignatureScript t i s"
  have i: "i < length (TxIns (t_msgTx t))" using Cons.prems(1) by simp
  have step: "InjectSigs_loop L spk t i (sig # sigs) = InjectSigs_loop L spk ?t (Suc i) sigs"
    using s i by simp
  have p1: "Suc i + length sigs \<le> length (TxIns (t_msgTx ?t))"
    using Cons.prems(1) by simp
  have p2: "\<forall>k < length sigs.
              scriptBuilderScript L (sigScriptItems L ?t spk (Suc i + k) (sigs ! k)) \<noteq> None"
  proof (intro allI impI)
    fix k assume "k < length sigs"
    then have "Suc k < length (sig # sigs)" by simp
    from Cons.prems(2) [rule_format, OF this]
    show "scriptBuilderScript L (sigScriptItems L ?t spk (Suc i + k) (sigs ! k)) \<noteq> None"
      by simp
  qed
  note IH = Cons.IH [OF p1 p2]
  show ?case
  proof (intro conjI allI impI)
    show "snd (InjectSigs_loop L spk t i (sig # sigs)) = None"
      using IH by (simp only: step)
    show "length (TxIns (t_msgTx (fst (InjectSigs_loop L spk t i (sig # sigs)))))
            = length (TxIns (t_msgTx t))"
      using IH by (simp only: step setSignatureScript_fields)
  next
    fix j assume j: "j < length (TxIns (t_msgTx t))"
    then have j': "j < length (TxIns (t_msgTx ?t))" by simp
    from IH have "TxIns (t_msgTx (fst (InjectSigs_loop L spk ?t (Suc i) sigs))) ! j =
              (if Suc i \<le> j \<and> j < Suc i + length sigs
               then (TxIns (t_msgTx ?t) ! j)\<lparr>SignatureScript :=
                      the (scriptBuilderScript L (sigScriptItems L ?t spk j (sigs ! (j - Suc i))))\<rparr>
               else TxIns (t_msgTx ?t) ! j)"
      using j' by blast
    then show "TxIns (t_msgTx (fst (InjectSigs_loop L spk t i (sig # sigs)))) ! j =
              (if i \<le> j \<and> j < i + length (sig # sigs)
               then (TxIns (t_msgTx t) ! j)\<lparr>SignatureScript :=
                      the (scriptBuilderScript L (sigScriptItems L t spk j ((sig # sigs) ! (j - i))))\<rparr>
               else TxIns (t_msgTx t) ! j)"
      unfolding step using j s
      by (cases "j = i") (auto simp add: setSignatureScript_nth Suc_diff_le nth_Cons')
  qed
qed


text \<open>With more signatures than inputs left, the loop writes the scripts of all the
  inputs left and then indexes past the last input.\<close>

lemma InjectSigs_loop_surplus:
  assumes "length (TxIns (t_msgTx t)) < i + length sigs"
      and "i \<le> length (TxIns (t_msgTx t))"
      and "\<forall>k < length sigs. i + k \<le> length (TxIns (t_msgTx t)) \<longrightarrow>
             scriptBuilderScript L (sigScriptItems L t spk (i + k) (sigs ! k)) \<noteq> None"
  shows "snd (InjectSigs_loop L spk t i sigs) = Some Panic
       \<and> length (TxIns (t_msgTx (fst (InjectSigs_loop L spk t i sigs)))) = length (TxIns (t_msgTx t))
       \<and> (\<forall>j < length (TxIns (t_msgTx t)).
            TxIns (t_msgTx (fst (InjectSigs_loop L spk t i sigs))) ! j =
              (if i \<le> j
               then (TxIns (t_msgTx t) ! j)\<lparr>SignatureScript :=
                      the (scriptBuilderScript L (sigScriptItems L t spk j (sigs ! (j - i))))\<rparr>
               else TxIns (t_msgTx t) ! j))"
  using assms
proof (induction sigs arbitrary: t i)
  case Nil
  then show ?case by simp
next
  case (Cons sig sigs)
  from Cons.prems(2) Cons.prems(3) [rule_format, of 0]
  obtain s where s: "scriptBuilderScript L (sigScriptItems L t spk i sig) = Some s"
    by auto
  show ?case
  proof (cases "i < length (TxIns (t_msgTx t))")
    case False
    with s have "InjectSigs_loop L spk t i (sig # sigs) = (t, Some Panic)" by simp
    with False show ?thesis by simp
  next
    case i: True
    let ?t = "setSignatureScript t i s"
    have step: "InjectSigs_loop L spk t i (sig # sigs) = InjectSigs_loop L spk ?t (Suc i) sigs"
      using s i by simp
    have p1: "length (TxIns (t_msgTx ?t)) < Suc i + length sigs"
      using Cons.prems(1) by simp
    have p2: "Suc i \<le> length (TxIns (t_msgTx ?t))"
      using i by simp
    have p3: "\<forall>k < length sigs. Suc i + k \<le> length (TxIns (t_msgTx ?t)) \<longrightarrow>
                scriptBuilderScript L (sigScriptItems L ?t spk (Suc i + k) (sigs ! k)) \<noteq> None"
    proof (intro allI impI)
      fix k assume "k < length sigs" and "Suc i + k \<le> length (TxIns (t_msgTx ?t))"
      then have "Suc k < length (sig # sigs)" "i + Suc k \<le> length (TxIns (t_msgTx t))"
        by simp_all
      from Cons.prems(3) [rule_format, OF this]
      show "scriptBuilderScript L (sigScriptItems L ?t spk (Suc i + k) (sigs ! k)) \<noteq> None"
        by simp
    qed
    note IH = Cons.IH [OF p1 p2 p3]
    show ?thesis
    proof (intro conjI allI impI)
      show "snd (InjectSigs_loop L spk t i (sig # sigs)) = Some Panic"
        using IH by (simp only: step)
      show "length (TxIns (t_msgTx (fst (InjectSigs_loop L spk t i (sig # sigs)))))
              = length (TxIns (t_msgTx t))"
        using IH by (simp only: step setSignatureScript_fields)
    next
      fix j assume j: "j < length (TxIns (t_msgTx t))"
      then have j': "j < length (TxIns (t_msgTx ?t))" by simp
      from IH have "TxIns (t_msgTx (fst (InjectSigs_loop L spk ?t (Suc i) sigs))) ! j =
                (if Suc i \<le> j
                 then (TxIns (t_msgTx ?t) ! j)\<lparr>SignatureScript :=
                        the (scriptBuilderScript L (sigScriptItems L ?t spk j (sigs ! (j - Suc i))))\<rparr>
                 else TxIns (t_msgTx ?t) ! j)"
        using j' by blast
      then show "TxIns (t_msgTx (fst (InjectSigs_loop L spk t i (sig # sigs)))) ! j =
                (if i \<le> j
                 then (TxIns (t_msgTx t) ! j)\<lparr>SignatureScript :=
                        the (scriptBuilderScript L (sigScriptItems L t spk j ((sig # sigs) ! (j - i))))\<rparr>
                 else TxIns (t_msgTx t) ! j)"
        unfolding step using j s
        by (cases "j = i") (auto simp add: setSignatureScript_nth Suc_diff_le nth_Cons')
    qed
  qed
qed

text \<open>The digests of the transaction play no part in the loop.\<close>

lemma InjectSigs_loop_hashes:
  "InjectSigs_loop L spk (t\<lparr>t_hashes := hs\<rparr>) i sigs =
     (fst (InjectSigs_loop L spk t i sigs)\<lparr>t_hashes := hs\<rparr>, snd (InjectSigs_loop L spk t i sigs))"
proof (induction sigs arbitrary: t i)
  case Nil
  show ?case by simp
next
  case (Cons sig sigs)
  have a: "sigScriptItems L (t\<lparr>t_hashes := hs\<rparr>) spk i sig = sigScriptItems L t spk i sig"
    by (simp add: sigScriptItems_def split: option.splits)
  have b: "setSignatureScript (t\<lparr>t_hashes := hs\<rparr>) i s = (setSignatureScript t i s)\<lparr>t_hashes := hs\<rparr>"
    for s
    by (simp add: setSignatureScript_def)
  show ?case
    by (simp add: a b Cons.IH split: option.splits)
qed

lemma built_tx_fields:
  "t_client built_tx = test_client" "t_publicKey built_tx = test_pubKey"
  "t_contract built_tx = None" "t_mwIns built_tx = 1"
  "TxIns (t_msgTx built_tx) = [inputOf stub_libs utxo_a2]"
  "length (t_hashes built_tx) = 1"
proof -
  let ?run = "Build_run stub_libs (NewTxBuilder test_client) test_pubKey test_to None 20000
            [utxo_a2] []"
  have "\<exists>t. ?run = Inr (t, [Amount utxo_a2])"
    using test_Build_run [of 20000 utxo_a2]
    by (auto simp add: utxo_a2_def word_sless_alt)
  then obtain t where t: "?run = Inr (t, [Amount utxo_a2])" by blast
  then have b: "built_tx = t" by (simp add: built_tx_def)
  from t obtain pubKeyScript where
    f: "t_mwIns t = length [utxo_a2]" "t_contract t = None" "t_client t = test_client"
       "t_publicKey t = test_pubKey" and
    bh: "Build_hashes stub_libs pubKeyScript None (t_msgTx t) [Amount utxo_a2]
           (length [utxo_a2]) (length ([] :: UTXO list)) = Inr (t_hashes t)"
    by (rule Build_run_success)
  from f show "t_client built_tx = test_client" "t_publicKey built_tx = test_pubKey"
    "t_contract built_tx = None" "t_mwIns built_tx = 1"
    by (simp_all add: b)
  from Build_run_inputs [OF t] show "TxIns (t_msgTx built_tx) = [inputOf stub_libs utxo_a2]"
    by (simp add: b)
  from Build_hashes_digests(1) [OF bh] show "length (t_hashes built_tx) = 1"
    by (simp add: b)
qed

lemma built_tx_key:
  "SerializePublicKey stub_libs (t_client built_tx) (t_publicKey built_tx) = Inr [4, 1, 2]"
  by (simp add: built_tx_fields SerializePublicKey_def test_client_def test_pubKey_def
      stub_libs_simps)

lemma stub_script:
  "scriptBuilderScript stub_libs (sigScriptItems stub_libs built_tx [4, 1, 2] i (Signature r s))
     = Some [4, 0x30, of_int r, of_int s, 1, 3, 4, 1, 2]"
  by (simp add: sigScriptItems_def built_tx_fields stub_libs_def SigHashAll_def)

text \<open>
  Claim C6. \<open>InjectSigs\<close> never compares the number of signatures with the number of
  digests or of inputs, and the digests play no part in it. On a network whose public
  keys can be serialized and with every script built, it sets the signature script of
  input \<open>i\<close> from signature \<open>i\<close> for every signature that has an input and leaves the
  other inputs as they were; with at most as many signatures as inputs it returns no
  error, and with more it indexes past the last input once all the inputs are written.
\<close>

theorem InjectSigs_no_count_check:
  assumes "SerializePublicKey L (t_client t) (t_publicKey t) = Inr spk"
      and "\<forall>k < length sigs. k \<le> length (TxIns (t_msgTx t)) \<longrightarrow>
             scriptBuilderScript L (sigScriptItems L t spk k (sigs ! k)) \<noteq> None"
  shows "snd (InjectSigs L t sigs)
           = (if length sigs \<le> length (TxIns (t_msgTx t)) then None else Some Panic)
       \<and> length (TxIns (t_msgTx (fst (InjectSigs L t sigs)))) = length (TxIns (t_msgTx t))
       \<and> (\<forall>j < length (TxIns (t_msgTx t)).
            TxIns (t_msgTx (fst (InjectSigs L t sigs))) ! j =
              (if j < length sigs
               then (TxIns (t_msgTx t) ! j)\<lparr>SignatureScript :=
                      the (scriptBuilderScript L (sigScriptItems L t spk j (sigs ! j)))\<rparr>
               else TxIns (t_msgTx t) ! j))
       \<and> InjectSigs L (t\<lparr>t_hashes := hs\<rparr>) sigs
           = (fst (InjectSigs L t sigs)\<lparr>t_hashes := hs\<rparr>, snd (InjectSigs L t sigs))"
proof -
  have e: "InjectSigs L t sigs = InjectSigs_loop L spk t 0 sigs"
    by (simp add: InjectSigs_def assms(1))
  have h: "InjectSigs L (t\<lparr>t_hashes := hs\<rparr>) sigs
           = (fst (InjectSigs L t sigs)\<lparr>t_hashes := hs\<rparr>, snd (InjectSigs L t sigs))"
    unfolding e by (simp add: InjectSigs_def assms(1) InjectSigs_loop_hashes)
  show ?thesis
  proof (cases "length sigs \<le> length (TxIns (t_msgTx t))")
    case True
    with assms(2) have "\<forall>k < length sigs.
             scriptBuilderScript L (sigScriptItems L t spk k (sigs ! k)) \<noteq> None"
      by simp
    with InjectSigs_loop_ok [of 0 sigs t L spk] True h
    show ?thesis unfolding e by simp
  next
    case False
    with InjectSigs_loop_surplus [where t = t and i = 0 and sigs = sigs and L = L and spk = spk]
      assms(2) h
    show ?thesis unfolding e by simp
  qed
qed

theorem InjectSigs_no_count_check_witness:
  "snd (InjectSigs stub_libs built_tx []) = None
   \<and> TxIns (t_msgTx (fst (InjectSigs stub_libs built_tx []))) ! 0 = TxIns (t_msgTx built_tx) ! 0
   \<and> snd (InjectSigs stub_libs built_tx [test_sig1]) = None
   \<and> SignatureScript (TxIns (t_msgTx (fst (InjectSigs stub_libs built_tx [test_sig1]))) ! 0)
       = [4, 0x30, 11, 12, 1, 3, 4, 1, 2]
   \<and> snd (InjectSigs stub_libs built_tx [test_sig1, test_sig2]) = Some Panic
   \<and> SignatureScript
        (TxIns (t_msgTx (fst (InjectSigs stub_libs built_tx [test_sig1, test_sig2]))) ! 0)
       = [4, 0x30, 11, 12, 1, 3, 4, 1, 2]"
proof -
  have s: "\<forall>k < length sigs. k \<le> length (TxIns (t_msgTx built_tx)) \<longrightarrow>
             scriptBuilderScript stub_libs
               (sigScriptItems stub_libs built_tx [4, 1, 2] k (sigs ! k)) \<noteq> None" for sigs
  proof (intro allI impI)
    fix k
    obtain r t where "sigs ! k = Signature r t" by (cases "sigs ! k")
    then show "scriptBuilderScript stub_libs
               (sigScriptItems stub_libs built_tx [4, 1, 2] k (sigs ! k)) \<noteq> None"
      by (simp add: stub_script)
  qed
  from InjectSigs_no_count_check [OF built_tx_key s, of "[]"]
  have a: "snd (InjectSigs stub_libs built_tx []) = None"
    "TxIns (t_msgTx (fst (InjectSigs stub_libs built_tx []))) ! 0 = TxIns (t_msgTx built_tx) ! 0"
    by (simp_all add: built_tx_fields)
  from InjectSigs_no_count_check [OF built_tx_key s, of "[test_sig1]"]
  have b: "snd (InjectSigs stub_libs built_tx [test_sig1]) = None"
    "SignatureScript (TxIns (t_msgTx (fst (InjectSigs stub_libs built_tx [test_sig1]))) ! 0)
       = [4, 0x30, 11, 12, 1, 3, 4, 1, 2]"
    by (simp_all add: built_tx_fields test_sig1_def stub_script)
  from InjectSigs_no_count_check [OF built_tx_key s, of "[test_sig1, test_sig2]"]
  have c: "snd (InjectSigs stub_libs built_tx [test_sig1, test_sig2]) = Some Panic"
    "SignatureScript
        (TxIns (t_msgTx (fst (InjectSigs stub_libs built_tx [test_sig1, test_sig2]))) ! 0)
       = [4, 0x30, 11, 12, 1, 3, 4, 1, 2]"
    by (simp_all add: built_tx_fields test_sig1_def stub_script)
  from a b c show ?thesis by simp
qed

text \<open>The built transaction has one input and one digest. With no signature at all
  \<open>InjectSigs\<close> returns no error; with two signatures it writes the script of input 0 and
  then panics on the missing input 1.\<close>

theorem InjectSigs_count_mismatch_accepted:
  "length (Hashes built_tx) = 1
   \<and> length (TxIns (t_msgTx built_tx)) = 1
   \<and> InjectSigs stub_libs built_tx [] = (built_tx, None)
   \<and> snd (InjectSigs stub_libs built_tx [test_sig1, test_sig2]) = Some Panic
   \<and> SignatureScript (TxIns (t_msgTx built_tx) ! 0) = []
   \<and> SignatureScript
        (TxIns (t_msgTx (fst (InjectSigs stub_libs built_tx [test_sig1, test_sig2]))) ! 0)
       = [4, 0x30, 11, 12, 1, 3, 4, 1, 2]"
proof -
  have a: "InjectSigs stub_libs built_tx [] = (built_tx, None)"
    by (simp only: InjectSigs_def built_tx_key sum.case InjectSigs_loop.simps)
  have b: "InjectSigs stub_libs built_tx [test_sig1, test_sig2]
             = (setSignatureScript built_tx 0 [4, 0x30, 11, 12, 1, 3, 4, 1, 2], Some Panic)"
  proof -
    have "InjectSigs stub_libs built_tx [test_sig1, test_sig2]
            = InjectSigs_loop stub_libs [4, 1, 2] built_tx 0 [test_sig1, test_sig2]"
      by (simp only: InjectSigs_def built_tx_key sum.case)
    then show ?thesis
      by (simp add: test_sig1_def test_sig2_def stub_script built_tx_fields)
  qed
  show ?thesis
    by (simp add: a b Hashes_def built_tx_fields setSignatureScript_def inputOf_def NewTxIn_def)
qed

subsection \<open>Funding from the account's UTXOs\<close>






text \<open>The loop takes the value down by the amounts it appends to \<open>receiveValues\<close>, and
  it adds one input for each.\<close>

lemma fund_loop_value:
  "fund_loop L utxos (t, v) = Inr (t', v') \<Longrightarrow>
     (\<exists>added. receiveValues t' = receiveValues t @ added \<and> v' = v - sum_list added
        \<and> length (TxIns (msgTx t')) = length (TxIns (msgTx t)) + length added
        \<and> length added \<le> length utxos)
   \<and> TxOuts (msgTx t') = TxOuts (msgTx t)"
proof (induction utxos arbitrary: t v)
  case Nil
  then show ?case by simp
next
  case (Cons j utxos)
  from Cons.prems obtain spk where spk: "hexDecodeString L (ScriptPubKey j) = Some spk"
    by (auto split: option.splits)
  show ?case
  proof (cases "length (scriptPublicKey t) \<noteq> 0 \<and> scriptPublicKey t \<noteq> spk")
    case True
    with Cons.prems spk have "fund_loop L utxos (t, v) = Inr (t', v')" by simp
    from Cons.IH [OF this] show ?thesis by auto
  next
    case False
    with Cons.prems spk obtain h where h: "chainhashNewHashFromStr L (TxHash j) = Some h"
      by (auto split: option.splits)
    define t1 where "t1 = takeUTXO t spk h j"
    have t1: "receiveValues t1 = receiveValues t @ [Amount j]"
      "length (TxIns (msgTx t1)) = length (TxIns (msgTx t)) + 1"
      "TxOuts (msgTx t1) = TxOuts (msgTx t)"
      by (simp_all add: t1_def takeUTXO_def AddTxIn_def)
    from Cons.prems spk False h
    have r: "(if v - Amount j \<le>s - MaxZCashFee then Inr (t1, v - Amount j)
             else fund_loop L utxos (t1, v - Amount j)) = Inr (t', v')"
      by (auto simp add: t1_def split: if_splits)
    show ?thesis
    proof (cases "v - Amount j \<le>s - MaxZCashFee")
      case True
      with r have "t' = t1" "v' = v - Amount j" by simp_all
      with t1 show ?thesis
        by (intro conjI exI [of _ "[Amount j]"]) simp_all
    next
      case False
      with r have "fund_loop L utxos (t1, v - Amount j) = Inr (t', v')" by simp
      from Cons.IH [OF this] obtain added where
        a: "receiveValues t' = receiveValues t1 @ added" "v' = v - Amount j - sum_list added"
           "length (TxIns (msgTx t')) = length (TxIns (msgTx t1)) + length added"
           "length added \<le> length utxos"
           "TxOuts (msgTx t') = TxOuts (msgTx t1)"
        by auto
      with t1 show ?thesis
        by (intro conjI exI [of _ "Amount j # added"]) (simp_all add: algebra_simps)
    qed
  qed
qed


lemma sint_add_fee:
  fixes v :: i64
  assumes "sint v + 10000 < 2 ^ 63"
  shows "sint (v + 10000) = sint v + 10000"
proof -
  have b: "- (2 ^ 63) \<le> sint v" using sint_ge [of v] by simp
  have "sint (v + 10000) = signed_take_bit 63 (sint v + sint (10000 :: 64 word))"
    by (simp add: sint_word_ariths)
  also have "sint (10000 :: 64 word) = 10000" by simp
  also have "signed_take_bit 63 (sint v + 10000) = sint v + 10000"
    using assms b by (intro signed_take_bit_int_eq_self) simp_all
  finally show ?thesis .
qed








lemma amounts_simps [simp]:
  "amounts [] = 0"
  "amounts (j # utxos) = sint (Amount j) + amounts utxos"
  by (simp_all add: amounts_def)
















subsection \<open>The fee taken from the last output\<close>

lemma stub_account_Address:
  assumes "NetworkParams (a_client acct) = TestNet3Params"
  shows "\<exists>a. account_Address stub_libs acct = Inr a"
proof -
  obtain x y where k: "PubKey stub_libs (PrivKey acct) = PublicKey x y"
    by (cases "PubKey stub_libs (PrivKey acct)")
  have s: "SerializedPublicKey stub_libs acct = Inr [4, of_int x, of_int y]"
    by (simp add: SerializedPublicKey_def SerializePublicKey_def assms k stub_libs_simps)
  have "\<exists>a. PublicKeyToAddress stub_libs (a_client acct) [4, of_int x, of_int y] = Inr a"
    by (simp add: PublicKeyToAddress_def AddressFromHash160_def DecodeAddress_def
        encodeHash_eq stub_libs_simps assms copy20_def prefix_of_table stub_libs_def)
  then show ?thesis
    by (simp add: account_Address_def s)
qed

lemma fundAll_loop_outputs:
  "fundAll_loop L utxos t = Inr t' \<Longrightarrow> TxOuts (msgTx t') = TxOuts (msgTx t)"
proof (induction utxos arbitrary: t)
  case Nil
  then show ?case by simp
next
  case (Cons j utxos)
  from Cons.prems obtain spk where spk: "hexDecodeString L (ScriptPubKey j) = Some spk"
    by (auto split: option.splits)
  show ?case
  proof (cases "length (scriptPublicKey t) \<noteq> 0 \<and> scriptPublicKey t \<noteq> spk")
    case True
    with Cons.prems spk have "fundAll_loop L utxos t = Inr t'" by simp
    from Cons.IH [OF this] show ?thesis .
  next
    case False
    with Cons.prems spk obtain h where h: "chainhashNewHashFromStr L (TxHash j) = Some h"
      by (auto split: option.splits)
    with Cons.prems spk False have "fundAll_loop L utxos (takeUTXO t spk h j) = Inr t'"
      by (auto split: if_splits)
    from Cons.IH [OF this] show ?thesis
      by (simp add: takeUTXO_def AddTxIn_def)
  qed
qed

text \<open>\<open>fundAll\<close> leaves the outputs as they are, whereas a successful \<open>fund\<close> ends by
  adding the change output.\<close>

lemma fundAll_outputs:
  "fundAll L acct t addr = Inr t' \<Longrightarrow> TxOuts (msgTx t') = TxOuts (msgTx t)"
  by (auto simp add: fundAll_def andThen_eq_Inr split: option.splits
      dest: fundAll_loop_outputs)

lemma fund_adds_output:
  "fund L acct t addr0 = Inr t' \<Longrightarrow> TxOuts (msgTx t') \<noteq> []"
  by (auto simp add: fund_def andThen_eq_Inr AddTxOut_def split: if_splits option.splits)

lemma mixed_fundAll:
  "\<exists>t. fundAll stub_libs mixed_account (newTx (NewMsgTx 4)) a = Inr t"
proof -
  have a: "hexDecodeString stub_libs (ScriptPubKey utxo_a4) = Some [0x76, 0xA9]"
    "chainhashNewHashFromStr stub_libs (TxHash utxo_a4) = Some (0xA4 # replicate 31 0)"
    by (simp_all add: stub_libs_simps utxo_a4_def)
  have b: "hexDecodeString stub_libs (ScriptPubKey utxo_b2) = Some [0xA9, 0x14]"
    by (simp add: stub_libs_simps utxo_b2_def)
  have c: "scriptPublicKey (takeUTXO (newTx (NewMsgTx 4)) [0x76, 0xA9] h utxo_a4) = [0x76, 0xA9]"
    for h by (simp add: takeUTXO_def newTx_def)
  have n: "scriptPublicKey (newTx (NewMsgTx 4)) = []"
    by (simp add: newTx_def)
  have "fundAll_loop stub_libs [utxo_a4, utxo_b2] (newTx (NewMsgTx 4))
          = Inr (takeUTXO (newTx (NewMsgTx 4)) [0x76, 0xA9] (0xA4 # replicate 31 0) utxo_a4)"
    by (simp add: a b c n)
  moreover have "GetUTXOs (a_client mixed_account) 0 (EncodeAddress stub_libs a) 1000 0
                   = Some [utxo_a4, utxo_b2]"
    by (simp add: mixed_account_def mixed_client_def)
  ultimately show ?thesis
    by (simp add: fundAll_def)
qed

text \<open>
  Claim C10. A call with \<open>sendAll\<close> and no pre-condition, on an account whose address
  holds UTXOs: the funding adds inputs and no output, so the step that takes the fee from
  the last output finds no output and indexes out of range; the call panics before
  anything is signed or published.
\<close>

theorem SendTransaction_sendAll_no_output_panics:
  "SendTransaction 1 stub_libs quiet_world mixed_account None None None None None True
     = Some (Inl Panic, [])
   \<and> GetUTXOs (a_client mixed_account) 0 a 1000 0 = Some [utxo_a4, utxo_b2]"
proof -
  have np: "NetworkParams (a_client mixed_account) = TestNet3Params"
    by (simp add: mixed_account_def mixed_client_def)
  obtain addr where addr: "account_Address stub_libs mixed_account = Inr addr"
    using stub_account_Address [OF np] by blast
  obtain t where t: "fundAll stub_libs mixed_account (newTx (NewMsgTx 4)) addr = Inr t"
    using mixed_fundAll by blast
  from fundAll_outputs [OF t] have "TxOuts (msgTx t) = []"
    by (simp add: newTx_def)
  then have d: "deductFee t = Inl Panic"
    by (simp add: deductFee_def)
  have m: "(newTx (NewMsgTx 4))\<lparr>msgTx := msgTx (newTx (NewMsgTx 4))\<rparr> = newTx (NewMsgTx 4)"
    by simp
  have "prepare stub_libs mixed_account None None None None True = Inl Panic"
    by (simp add: prepare_def addr m t d)
  then have "SendTransaction 1 stub_libs quiet_world mixed_account None None None None None True
     = Some (Inl Panic, [])"
    by (simp add: SendTransaction_def)
  moreover have "GetUTXOs (a_client mixed_account) 0 a 1000 0 = Some [utxo_a4, utxo_b2]"
    by (simp add: mixed_account_def mixed_client_def)
  ultimately show ?thesis by simp
qed

subsection \<open>Publishing and polling\<close>

lemma failed_polls_counts [simp]:
  "filter is_publish (failed_polls k) = []"
  "length (filter is_poll (failed_polls k)) = k"
  by (induction k) simp_all

lemma failed_rounds_counts [simp]:
  "length (filter is_publish (failed_rounds buf R)) = R"
  "length (filter is_poll (failed_rounds buf R)) = 60 * R"
  by (induction R) simp_all

lemma poll_loop_all_fail:
  "\<forall>q. p \<le> q \<and> q < p + k \<longrightarrow> \<not> pc q m \<Longrightarrow>
     poll_loop k p (Some pc) m = (False, p + k, failed_polls k)"
proof (induction k arbitrary: p)
  case 0
  show ?case by simp
next
  case (Suc k)
  from Suc.prems have here: "\<not> pc p m" by simp
  from Suc.prems have "\<forall>q. Suc p \<le> q \<and> q < Suc p + k \<longrightarrow> \<not> pc q m" by simp
  from Suc.IH [OF this] here show ?case by simp
qed

lemma poll_loop_first_true:
  "j < k \<Longrightarrow> \<forall>q. p \<le> q \<and> q < p + j \<longrightarrow> \<not> pc q m \<Longrightarrow> pc (p + j) m \<Longrightarrow>
     poll_loop k p (Some pc) m = (True, p + j + 1, failed_polls j @ [EvPoll True])"
proof (induction j arbitrary: k p)
  case 0
  then obtain k' where "k = Suc k'" by (cases k) simp_all
  with 0 show ?case by simp
next
  case (Suc j)
  then obtain k' where k: "k = Suc k'" "j < k'" by (cases k) simp_all
  from Suc.prems have here: "\<not> pc p m" by simp
  from Suc.prems have rest: "\<forall>q. Suc p \<le> q \<and> q < Suc p + j \<longrightarrow> \<not> pc q m" by simp
  from Suc.prems have last: "pc (Suc p + j) m" by simp
  from Suc.IH [OF k(2) rest last] here k show ?case by simp
qed

lemma submit_loop_first_true:
  assumes enc: "ZecEncode L (msgTx t) = Some buf"
      and j: "j < 60"
  shows "R < n \<Longrightarrow>
     \<forall>r'. r \<le> r' \<and> r' \<le> r + R \<longrightarrow> \<not> ctxDone W r' \<and> publishOK W r' buf \<Longrightarrow>
     \<forall>q. p \<le> q \<and> q < p + 60 * R + j \<longrightarrow> \<not> pc q (msgTx t) \<Longrightarrow>
     pc (p + 60 * R + j) (msgTx t) \<Longrightarrow>
     submit_loop n L W (Some pc) t r p =
       Some (Inr (TxHashString L (msgTx t), MaxZCashFee),
             failed_rounds buf R @ EvPublish buf # failed_polls j @ [EvPoll True])"
proof (induction R arbitrary: n r p)
  case 0
  then obtain n' where n: "n = Suc n'" by (cases n) simp_all
  from 0 have w: "\<not> ctxDone W r" "publishOK W r buf" by simp_all
  from 0 have "\<forall>q. p \<le> q \<and> q < p + j \<longrightarrow> \<not> pc q (msgTx t)" "pc (p + j) (msgTx t)"
    by simp_all
  from poll_loop_first_true [of j 60 p pc "msgTx t", OF j this]
  show ?case by (simp add: n w submit_def enc)
next
  case (Suc R)
  then obtain n' where n: "n = Suc n'" "R < n'" by (cases n) simp_all
  from Suc.prems(2) have w: "\<not> ctxDone W r" "publishOK W r buf" by simp_all
  from Suc.prems(3) have "\<forall>q. p \<le> q \<and> q < p + 60 \<longrightarrow> \<not> pc q (msgTx t)" by simp
  from poll_loop_all_fail [of p 60 pc "msgTx t", OF this]
  have polls: "poll_loop 60 p (Some pc) (msgTx t) = (False, p + 60, failed_polls 60)" .
  have w': "\<forall>r'. Suc r \<le> r' \<and> r' \<le> Suc r + R \<longrightarrow> \<not> ctxDone W r' \<and> publishOK W r' buf"
    using Suc.prems(2) by simp
  have f': "\<forall>q. p + 60 \<le> q \<and> q < p + 60 + 60 * R + j \<longrightarrow> \<not> pc q (msgTx t)"
    using Suc.prems(3) by simp
  have l': "pc (p + 60 + 60 * R + j) (msgTx t)"
    using Suc.prems(4) by (simp add: algebra_simps)
  from Suc.IH [OF n(2) w' f' l']
  have "submit_loop n' L W (Some pc) t (Suc r) (p + 60) =
       Some (Inr (TxHashString L (msgTx t), MaxZCashFee),
             failed_rounds buf R @ EvPublish buf # failed_polls j @ [EvPoll True])" .
  then show ?case
    by (simp add: n w submit_def enc polls del: failed_polls.simps)
qed


text \<open>\<open>R\<close> rounds in which the context is not done, the publication succeeds and all
  60 polls fail lead to round \<open>R\<close> with the trace of these rounds.\<close>

lemma submit_loop_failed_rounds:
  assumes enc: "ZecEncode L (msgTx t) = Some buf"
  shows "\<forall>r'. r \<le> r' \<and> r' < r + R \<longrightarrow> \<not> ctxDone W r' \<and> publishOK W r' buf \<Longrightarrow>
     \<forall>q. p \<le> q \<and> q < p + 60 * R \<longrightarrow> \<not> pc q (msgTx t) \<Longrightarrow>
     submit_loop (R + n) L W (Some pc) t r p =
       map_option (\<lambda>(res, evs). (res, failed_rounds buf R @ evs))
         (submit_loop n L W (Some pc) t (r + R) (p + 60 * R))"
proof (induction R arbitrary: r p)
  case 0
  show ?case by (cases "submit_loop n L W (Some pc) t r p") auto
next
  case (Suc R)
  from Suc.prems(1) have w: "\<not> ctxDone W r" "publishOK W r buf" by simp_all
  from Suc.prems(2) have "\<forall>q. p \<le> q \<and> q < p + 60 \<longrightarrow> \<not> pc q (msgTx t)" by simp
  from poll_loop_all_fail [of p 60 pc "msgTx t", OF this]
  have polls: "poll_loop 60 p (Some pc) (msgTx t) = (False, p + 60, failed_polls 60)" .
  have w': "\<forall>r'. Suc r \<le> r' \<and> r' < Suc r + R \<longrightarrow> \<not> ctxDone W r' \<and> publishOK W r' buf"
    using Suc.prems(1) by simp
  have f': "\<forall>q. p + 60 \<le> q \<and> q < p + 60 + 60 * R \<longrightarrow> \<not> pc q (msgTx t)"
    using Suc.prems(2) by simp
  have step: "submit_loop (Suc R + n) L W (Some pc) t r p =
      map_option (\<lambda>(res, evs'). (res, EvPublish buf # failed_polls 60 @ evs'))
        (submit_loop (R + n) L W (Some pc) t (Suc r) (p + 60))"
    by (simp add: w submit_def enc polls del: failed_polls.simps)
  have idx: "Suc r + R = r + Suc R" "p + 60 + 60 * R = p + 60 * Suc R" by simp_all
  show ?case
    unfolding step Suc.IH [OF w' f'] idx
    by (cases "submit_loop n L W (Some pc) t (r + Suc R) (p + 60 * Suc R)")
       (auto simp del: failed_polls.simps)
qed

lemma poll_loop_None: "0 < k \<Longrightarrow> poll_loop k p None m = (True, p, [])"
  by (cases k) simp_all

text \<open>What one round does, from the state of the context, the answer to the publication
  and the polls.\<close>

lemma submit_loop_round:
  assumes enc: "ZecEncode L (msgTx t) = Some buf"
  shows "ctxDone W r \<Longrightarrow>
           submit_loop (Suc n) L W postCond t r p = Some (Inl ErrPostConditionCheckFailed, [])"
    and "\<not> ctxDone W r \<Longrightarrow> \<not> publishOK W r buf \<Longrightarrow>
           submit_loop (Suc n) L W postCond t r p = Some (Inl (ErrLib PublishTransactionCall), [])"
    and "\<not> ctxDone W r \<Longrightarrow> publishOK W r buf \<Longrightarrow>
           submit_loop (Suc n) L W None t r p
             = Some (Inr (TxHashString L (msgTx t), MaxZCashFee), [EvPublish buf])"
    and "\<not> ctxDone W r \<Longrightarrow> publishOK W r buf \<Longrightarrow> j < 60 \<Longrightarrow>
         \<forall>q. p \<le> q \<and> q < p + j \<longrightarrow> \<not> pc q (msgTx t) \<Longrightarrow> pc (p + j) (msgTx t) \<Longrightarrow>
           submit_loop (Suc n) L W (Some pc) t r p
             = Some (Inr (TxHashString L (msgTx t), MaxZCashFee),
                     EvPublish buf # failed_polls j @ [EvPoll True])"
proof -
  show "ctxDone W r \<Longrightarrow>
           submit_loop (Suc n) L W postCond t r p = Some (Inl ErrPostConditionCheckFailed, [])"
    by simp
  show "\<not> ctxDone W r \<Longrightarrow> \<not> publishOK W r buf \<Longrightarrow>
           submit_loop (Suc n) L W postCond t r p = Some (Inl (ErrLib PublishTransactionCall), [])"
    by (simp add: submit_def enc)
  show "\<not> ctxDone W r \<Longrightarrow> publishOK W r buf \<Longrightarrow>
           submit_loop (Suc n) L W None t r p
             = Some (Inr (TxHashString L (msgTx t), MaxZCashFee), [EvPublish buf])"
    by (simp add: submit_def enc poll_loop_None)
  show "\<not> ctxDone W r \<Longrightarrow> publishOK W r buf \<Longrightarrow> j < 60 \<Longrightarrow>
         \<forall>q. p \<le> q \<and> q < p + j \<longrightarrow> \<not> pc q (msgTx t) \<Longrightarrow> pc (p + j) (msgTx t) \<Longrightarrow>
           submit_loop (Suc n) L W (Some pc) t r p
             = Some (Inr (TxHashString L (msgTx t), MaxZCashFee),
                     EvPublish buf # failed_polls j @ [EvPoll True])"
    using poll_loop_first_true [of j 60 p pc "msgTx t"]
    by (simp add: submit_def enc del: failed_polls.simps)
qed

text \<open>
  Claim C3, as amended. \<open>SendTransaction\<close> works in rounds. A round first looks at the
  context and returns the error of the failed post-condition when it is done; otherwise
  it publishes the transaction once, returning at once the error of a publication that
  fails, and then polls the post-condition at most 60 times, with a sleep of five
  seconds after each poll that fails; the call returns the transaction id and the fee
  at the first poll that returns true. After 60 polls that fail the next round begins,
  so the transaction is published again. Hence, after \<open>R\<close> rounds whose polls all
  fail, the transaction has been published \<open>R\<close> times and polled \<open>60 * R\<close> times, and
  round \<open>R\<close> ends the call in one of three ways: the context is done; the publication
  fails; or poll \<open>j < 60\<close> of the round is the first that holds, which makes \<open>R + 1\<close>
  publications and \<open>60 * R + j + 1\<close> polls. When no round ends the call it does not
  return. Without a post-condition the first round returns right after the publication.
\<close>

theorem SendTransaction_rounds:
  assumes "prepare L acct contract updateTxIn preCond f sendAll = Inr t"
      and "ZecEncode L (msgTx t) = Some buf"
  shows "(R < rounds \<and> (\<forall>r < R. \<not> ctxDone W r \<and> publishOK W r buf)
            \<and> (\<forall>q < 60 * R. \<not> pc q (msgTx t)) \<longrightarrow>
           (ctxDone W R \<longrightarrow>
              SendTransaction rounds L W acct contract updateTxIn preCond f (Some pc) sendAll
                = Some (Inl ErrPostConditionCheckFailed, failed_rounds buf R))
         \<and> (\<not> ctxDone W R \<and> \<not> publishOK W R buf \<longrightarrow>
              SendTransaction rounds L W acct contract updateTxIn preCond f (Some pc) sendAll
                = Some (Inl (ErrLib PublishTransactionCall), failed_rounds buf R))
         \<and> (\<not> ctxDone W R \<and> publishOK W R buf \<and> j < 60
              \<and> (\<forall>q < j. \<not> pc (60 * R + q) (msgTx t)) \<and> pc (60 * R + j) (msgTx t) \<longrightarrow>
              SendTransaction rounds L W acct contract updateTxIn preCond f (Some pc) sendAll
                = Some (Inr (TxHashString L (msgTx t), 10000),
                        failed_rounds buf R @ EvPublish buf # failed_polls j @ [EvPoll True]))
         \<and> length (filter is_publish (failed_rounds buf R)) = R
         \<and> length (filter is_poll (failed_rounds buf R)) = 60 * R
         \<and> length (filter is_publish
              (failed_rounds buf R @ EvPublish buf # failed_polls j @ [EvPoll True])) = R + 1
         \<and> length (filter is_poll
              (failed_rounds buf R @ EvPublish buf # failed_polls j @ [EvPoll True]))
             = 60 * R + j + 1)
       \<and> ((\<forall>r < rounds. \<not> ctxDone W r \<and> publishOK W r buf)
            \<and> (\<forall>q < 60 * rounds. \<not> pc q (msgTx t)) \<longrightarrow>
           SendTransaction rounds L W acct contract updateTxIn preCond f (Some pc) sendAll = None)
       \<and> SendTransaction (Suc n) L W acct contract updateTxIn preCond f None sendAll
           = Some (if ctxDone W 0 then (Inl ErrPostConditionCheckFailed, [])
                   else if publishOK W 0 buf
                        then (Inr (TxHashString L (msgTx t), 10000), [EvPublish buf])
                        else (Inl (ErrLib PublishTransactionCall), []))"
proof (intro conjI impI)
  assume a: "R < rounds \<and> (\<forall>r < R. \<not> ctxDone W r \<and> publishOK W r buf)
            \<and> (\<forall>q < 60 * R. \<not> pc q (msgTx t))"
  then obtain n' where n': "rounds = R + Suc n'"
    using less_imp_Suc_add [of R rounds] by auto
  from a have w: "\<forall>r'. 0 \<le> r' \<and> r' < 0 + R \<longrightarrow> \<not> ctxDone W r' \<and> publishOK W r' buf"
    and fl: "\<forall>q. 0 \<le> q \<and> q < 0 + 60 * R \<longrightarrow> \<not> pc q (msgTx t)"
    by simp_all
  have run: "SendTransaction rounds L W acct contract updateTxIn preCond f (Some pc) sendAll
      = map_option (\<lambda>(res, evs). (res, failed_rounds buf R @ evs))
          (submit_loop (Suc n') L W (Some pc) t R (60 * R))"
    using submit_loop_failed_rounds [where L = L and t = t and buf = buf and W = W
        and r = 0 and R = R and p = 0 and pc = pc and n = "Suc n'", OF assms(2) w fl]
    by (simp add: SendTransaction_def assms(1) n')
  {
    assume "ctxDone W R"
    from submit_loop_round(1) [OF assms(2) this]
    show "SendTransaction rounds L W acct contract updateTxIn preCond f (Some pc) sendAll
                = Some (Inl ErrPostConditionCheckFailed, failed_rounds buf R)"
      unfolding run by simp
  next
    assume "\<not> ctxDone W R \<and> \<not> publishOK W R buf"
    then have "\<not> ctxDone W R" "\<not> publishOK W R buf" by simp_all
    from submit_loop_round(2) [OF assms(2) this]
    show "SendTransaction rounds L W acct contract updateTxIn preCond f (Some pc) sendAll
                = Some (Inl (ErrLib PublishTransactionCall), failed_rounds buf R)"
      unfolding run by simp
  next
    assume b: "\<not> ctxDone W R \<and> publishOK W R buf \<and> j < 60
              \<and> (\<forall>q < j. \<not> pc (60 * R + q) (msgTx t)) \<and> pc (60 * R + j) (msgTx t)"
    then have c: "\<not> ctxDone W R" "publishOK W R buf" "j < 60" "pc (60 * R + j) (msgTx t)"
      by simp_all
    have d: "\<forall>q. 60 * R \<le> q \<and> q < 60 * R + j \<longrightarrow> \<not> pc q (msgTx t)"
    proof (intro allI impI)
      fix q assume q: "60 * R \<le> q \<and> q < 60 * R + j"
      then have "q - 60 * R < j" "q = 60 * R + (q - 60 * R)" by arith+
      with b show "\<not> pc q (msgTx t)" by metis
    qed
    from submit_loop_round(4) [where L = L and t = t and buf = buf and W = W and r = R
        and j = j and p = "60 * R" and pc = pc, OF assms(2) c(1,2,3) d c(4)]
    show "SendTransaction rounds L W acct contract updateTxIn preCond f (Some pc) sendAll
                = Some (Inr (TxHashString L (msgTx t), 10000),
                        failed_rounds buf R @ EvPublish buf # failed_polls j @ [EvPoll True])"
      unfolding run by (simp add: MaxZCashFee_def)
  }
  show "length (filter is_publish (failed_rounds buf R)) = R" by simp
  show "length (filter is_poll (failed_rounds buf R)) = 60 * R" by simp
  show "length (filter is_publish
              (failed_rounds buf R @ EvPublish buf # failed_polls j @ [EvPoll True])) = R + 1"
    by simp
  show "length (filter is_poll
              (failed_rounds buf R @ EvPublish buf # failed_polls j @ [EvPoll True]))
             = 60 * R + j + 1"
    by simp
next
  assume a: "(\<forall>r < rounds. \<not> ctxDone W r \<and> publishOK W r buf)
            \<and> (\<forall>q < 60 * rounds. \<not> pc q (msgTx t))"
  then have w: "\<forall>r'. 0 \<le> r' \<and> r' < 0 + rounds \<longrightarrow> \<not> ctxDone W r' \<and> publishOK W r' buf"
    and fl: "\<forall>q. 0 \<le> q \<and> q < 0 + 60 * rounds \<longrightarrow> \<not> pc q (msgTx t)"
    by simp_all
  from submit_loop_failed_rounds [where L = L and t = t and buf = buf and W = W
      and r = 0 and R = rounds and p = 0 and pc = pc and n = 0, OF assms(2) w fl]
  show "SendTransaction rounds L W acct contract updateTxIn preCond f (Some pc) sendAll = None"
    by (simp add: SendTransaction_def assms(1))
next
  show "SendTransaction (Suc n) L W acct contract updateTxIn preCond f None sendAll
           = Some (if ctxDone W 0 then (Inl ErrPostConditionCheckFailed, [])
                   else if publishOK W 0 buf
                        then (Inr (TxHashString L (msgTx t), 10000), [EvPublish buf])
                        else (Inl (ErrLib PublishTransactionCall), []))"
    by (simp add: SendTransaction_def assms submit_def MaxZCashFee_def poll_loop_None)
qed

lemma rich_prepare:
  "\<exists>t. prepare stub_libs rich_account None None (Some pay_20000) None False = Inr t"
proof -
  have np: "NetworkParams (a_client rich_account) = TestNet3Params"
    by (simp add: rich_account_def rich_client_def)
  obtain addr where addr: "account_Address stub_libs rich_account = Inr addr"
    using stub_account_Address [OF np] by blast
  define t0 where "t0 = (newTx (NewMsgTx 4))\<lparr>msgTx :=
     (snd (pay_20000 (msgTx (newTx (NewMsgTx 4)))))
       \<lparr>ExpiryHeight := ExpiryHeight (msgTx (newTx (NewMsgTx 4)))\<rparr>\<rparr>"
  have t0: "TxOuts (msgTx t0) = [NewTxOut 20000 [0x76, 0xA9]]"
    "scriptPublicKey t0 = []" "receiveValues t0 = []" "TxIns (msgTx t0) = []"
    by (simp_all add: t0_def newTx_def pay_20000_def AddTxOut_def)
  have fo: "fund_outputs (TxOuts (msgTx t0)) 0 0 = Inr 20000"
    by (simp add: t0 NewTxOut_def word_sless_alt)
  have bal: "Balance (a_client rich_account) k (EncodeAddress stub_libs addr) 0 = Inr 50000"
    for k
    by (simp add: Balance_def rich_account_def rich_client_def utxo_a2_def)
  have ut: "GetUTXOs (a_client rich_account) k (EncodeAddress stub_libs addr) 999999 0
              = Some [utxo_a2]" for k
    by (simp add: rich_account_def rich_client_def)
  define t1 where "t1 = takeUTXO t0 [0x76, 0xA9] (0xA1 # replicate 31 0) utxo_a2"
  have u: "hexDecodeString stub_libs (ScriptPubKey utxo_a2) = Some [0x76, 0xA9]"
    "chainhashNewHashFromStr stub_libs (TxHash utxo_a2) = Some (0xA1 # replicate 31 0)"
    "Amount utxo_a2 = 50000"
    by (simp_all add: stub_libs_simps utxo_a2_def)
  have lp: "fund_loop stub_libs [utxo_a2] (t0, 20000) = Inr (t1, - 30000)"
    by (simp add: u t0 t1_def MaxZCashFee_def word_sle_eq)
  obtain s where s: "PayToAddrScript stub_libs addr = Inr s"
    by (simp add: PayToAddrScript_def stub_libs_simps)
  define t2 where "t2 = t1\<lparr>msgTx := AddTxOut (msgTx t1) (NewTxOut (- (- 30000)) s)\<rparr>"
  have chk: "\<not> (50000 :: i64) <s 20000 + MaxZCashFee" "(- 30000 :: i64) \<le>s - MaxZCashFee"
    by (simp_all add: MaxZCashFee_def word_sless_alt word_sle_eq)
  have fd: "fund stub_libs rich_account t0 (Some addr) = Inr t2"
    unfolding fund_def
    by (simp add: fo bal ut lp s chk t2_def del: fund_loop.simps)
  have t2: "length (TxOuts (msgTx t2)) = 2" "length (TxIns (msgTx t2)) = 1"
    "length (receiveValues t2) = 1"
    by (simp_all add: t2_def t1_def takeUTXO_def AddTxOut_def AddTxIn_def t0)
  have "TxOuts (msgTx t2) \<noteq> []" using t2(1) by auto
  then have "\<exists>t3. deductFee t2 = Inr t3 \<and> TxIns (msgTx t3) = TxIns (msgTx t2)
                \<and> receiveValues t3 = receiveValues t2"
    by (simp add: deductFee_def Let_def)
  then obtain t3 where t3: "deductFee t2 = Inr t3" and
    t3f: "TxIns (msgTx t3) = TxIns (msgTx t2)" "receiveValues t3 = receiveValues t2"
    by blast
  have pk: "PrivKey rich_account = PrivateKey 1"
    "PubKey stub_libs (PrivateKey 1) = PublicKey 1 2"
    by (simp_all add: rich_account_def stub_libs_def)
  have spk: "SerializedPublicKey stub_libs rich_account = Inr [4, 1, 2]"
    by (simp add: SerializedPublicKey_def SerializePublicKey_def np pk stub_libs_simps)
  have idx: "[0 ..< length (TxIns (msgTx t3))] = [0]"
    by (simp add: t3f t2)
  have rv: "\<not> length (receiveValues t3) \<le> 0"
    by (simp add: t3f t2)
  have sg: "zecRawTxInSignature stub_libs m 0 sub SigHashAll (PrivateKey 1) amt
              = Some [0x30, 1, 0, 1]" for m sub amt
    by (simp add: stub_libs_def)
  have sc: "scriptBuilderScript stub_libs [AddData [0x30, 1, 0, 1], AddData [4, 1, 2]]
              = Some [4, 0x30, 1, 0, 1, 3, 4, 1, 2]"
    by (simp add: stub_libs_def)
  have "\<exists>t4. sign_loop stub_libs rich_account (scriptPublicKey t3) [4, 1, 2] None None None
                [0] t3 = Inr t4"
    using rv by (simp add: pk sg sc Let_def)
  then obtain t4 where "sign stub_libs rich_account t3 None None None = Inr t4"
    by (auto simp add: sign_def spk idx)
  moreover have "fst (pay_20000 m) = True" for m
    by (simp add: pay_20000_def)
  moreover note addr fd t3 t0_def [symmetric]
  ultimately show ?thesis
    by (simp add: prepare_def Let_def)
qed

lemma stub_ZecEncode: "\<exists>buf. ZecEncode stub_libs m = Some buf"
  by (simp add: stub_libs_def)

theorem SendTransaction_rounds_witness:
  "(\<exists>evs. SendTransaction 1 stub_libs quiet_world rich_account None None (Some pay_20000) None
            (Some (\<lambda>q m. 3 \<le> q)) False
          = Some (Inr (''txid'', 10000), evs)
        \<and> length (filter is_publish evs) = 1 \<and> length (filter is_poll evs) = 4)
   \<and> (\<exists>evs. SendTransaction 2 stub_libs cancelled_world rich_account None None
            (Some pay_20000) None (Some never_postCond) False
          = Some (Inl ErrPostConditionCheckFailed, evs)
        \<and> length (filter is_publish evs) = 1 \<and> length (filter is_poll evs) = 60)
   \<and> (\<exists>evs. SendTransaction 2 stub_libs refusing_world rich_account None None
            (Some pay_20000) None (Some never_postCond) False
          = Some (Inl (ErrLib PublishTransactionCall), evs)
        \<and> length (filter is_publish evs) = 1 \<and> length (filter is_poll evs) = 60)
   \<and> SendTransaction 2 stub_libs quiet_world rich_account None None
            (Some pay_20000) None (Some never_postCond) False = None
   \<and> (\<exists>evs. SendTransaction 1 stub_libs quiet_world rich_account None None (Some pay_20000) None
            None False
          = Some (Inr (''txid'', 10000), evs)
        \<and> length (filter is_publish evs) = 1 \<and> length (filter is_poll evs) = 0)"
proof -
  obtain t where t: "prepare stub_libs rich_account None None (Some pay_20000) None False = Inr t"
    using rich_prepare by blast
  obtain buf where buf: "ZecEncode stub_libs (msgTx t) = Some buf"
    using stub_ZecEncode by blast
  have th: "TxHashString stub_libs (msgTx t) = ''txid''"
    by (simp add: stub_libs_def)
  have one: "r < 1 \<longleftrightarrow> r = 0" for r :: nat by auto
  have i1: "\<exists>evs. SendTransaction 1 stub_libs quiet_world rich_account None None
            (Some pay_20000) None (Some (\<lambda>q m. 3 \<le> q)) False
          = Some (Inr (''txid'', 10000), evs)
        \<and> length (filter is_publish evs) = 1 \<and> length (filter is_poll evs) = 4"
    using SendTransaction_rounds [OF t buf, where R = 0 and rounds = 1 and W = quiet_world
        and pc = "\<lambda>q m. 3 \<le> q" and j = 3]
    by (simp add: quiet_world_def th)
  have i2: "\<exists>evs. SendTransaction 2 stub_libs cancelled_world rich_account None None
            (Some pay_20000) None (Some never_postCond) False
          = Some (Inl ErrPostConditionCheckFailed, evs)
        \<and> length (filter is_publish evs) = 1 \<and> length (filter is_poll evs) = 60"
    using SendTransaction_rounds [OF t buf, where R = 1 and rounds = 2 and W = cancelled_world
        and pc = never_postCond]
    by (simp add: cancelled_world_def never_postCond_def one
        del: failed_polls.simps failed_rounds.simps)
  have i3: "\<exists>evs. SendTransaction 2 stub_libs refusing_world rich_account None None
            (Some pay_20000) None (Some never_postCond) False
          = Some (Inl (ErrLib PublishTransactionCall), evs)
        \<and> length (filter is_publish evs) = 1 \<and> length (filter is_poll evs) = 60"
    using SendTransaction_rounds [OF t buf, where R = 1 and rounds = 2 and W = refusing_world
        and pc = never_postCond]
    by (simp add: refusing_world_def never_postCond_def one
        del: failed_polls.simps failed_rounds.simps)
  have i4: "SendTransaction 2 stub_libs quiet_world rich_account None None
            (Some pay_20000) None (Some never_postCond) False = None"
    using SendTransaction_rounds [OF t buf, where rounds = 2 and W = quiet_world
        and pc = never_postCond]
    by (simp add: quiet_world_def never_postCond_def)
  have i5: "\<exists>evs. SendTransaction 1 stub_libs quiet_world rich_account None None
            (Some pay_20000) None None False
          = Some (Inr (''txid'', 10000), evs)
        \<and> length (filter is_publish evs) = 1 \<and> length (filter is_poll evs) = 0"
    using SendTransaction_rounds [OF t buf, where n = 0 and W = quiet_world]
    by (simp add: quiet_world_def th)
  from i1 i2 i3 i4 i5 show ?thesis by (intro conjI)
qed

text \<open>The post-condition fails 60 times and holds at the poll of number 60: the call
  publishes the transaction twice and polls 61 times before it returns.\<close>

theorem SendTransaction_publishes_again:
  "\<exists>evs. SendTransaction 2 stub_libs quiet_world rich_account None None (Some pay_20000) None
            (Some late_postCond) False
          = Some (Inr (''txid'', 10000), evs)
        \<and> length (filter is_publish evs) = 2 \<and> length (filter is_poll evs) = 61"
proof -
  obtain t where t: "prepare stub_libs rich_account None None (Some pay_20000) None False = Inr t"
    using rich_prepare by blast
  obtain buf where buf: "ZecEncode stub_libs (msgTx t) = Some buf"
    using stub_ZecEncode by blast
  have j: "(0 :: nat) < 60" and R: "(1 :: nat) < 2" by simp_all
  have w: "\<forall>r'. 0 \<le> r' \<and> r' \<le> 0 + 1 \<longrightarrow> \<not> ctxDone quiet_world r' \<and> publishOK quiet_world r' buf"
    by (simp add: quiet_world_def)
  have fl: "\<forall>q. 0 \<le> q \<and> q < 0 + 60 * 1 + 0 \<longrightarrow> \<not> late_postCond q (msgTx t)"
    by (simp add: late_postCond_def)
  have tr: "late_postCond (0 + 60 * 1 + 0) (msgTx t)"
    by (simp add: late_postCond_def)
  let ?evs = "failed_rounds buf 1 @ EvPublish buf # failed_polls 0 @ [EvPoll True]"
  have th: "TxHashString stub_libs (msgTx t) = ''txid''"
    by (simp add: stub_libs_def)
  have "submit_loop 2 stub_libs quiet_world (Some late_postCond) t 0 0
          = Some (Inr (TxHashString stub_libs (msgTx t), MaxZCashFee), ?evs)"
    using submit_loop_first_true [where L = stub_libs and t = t and buf = buf and j = 0
      and R = 1 and n = 2 and r = 0 and W = quiet_world and p = 0 and pc = late_postCond,
      OF buf j R w fl tr] .
  then have "SendTransaction 2 stub_libs quiet_world rich_account None None (Some pay_20000) None
            (Some late_postCond) False
          = Some (Inr (''txid'', 10000), ?evs)"
    by (simp only: SendTransaction_def t sum.case th MaxZCashFee_def)
  moreover have "length (filter is_publish ?evs) = 2" "length (filter is_poll ?evs) = 61"
    by (simp_all del: failed_polls.simps failed_rounds.simps
        add: failed_rounds_counts [of buf 1, simplified])
  ultimately show ?thesis by blast
qed

end
